theory Spec2Isabelle
  imports Main "HOL-Library.Sublist" "HOL-Library.Monad_Syntax"
begin

section \<open>The C++ string operations used by canvasupdater.cpp\<close>

text \<open>
  A \<open>std::string\<close> is a \<open>string\<close> (a list of bytes), a \<open>size_t\<close> position is a
  \<open>nat\<close>, and the sentinel \<open>std::string::npos\<close> is \<open>None\<close>.
\<close>

text \<open>
  \<open>first_match pat s\<close> is the lowest index at which \<open>pat\<close> starts in \<open>s\<close>;
  \<open>str_find s pat pos\<close> is \<open>s.find(pat, pos)\<close>: the lowest index not below \<open>pos\<close>.
\<close>

fun first_match :: "string \<Rightarrow> string \<Rightarrow> nat option" where
  "first_match pat [] = (if pat = [] then Some 0 else None)"
| "first_match pat (c # cs) =
     (if prefix pat (c # cs) then Some 0 else map_option Suc (first_match pat cs))"

definition str_find :: "string \<Rightarrow> string \<Rightarrow> nat \<Rightarrow> nat option" where
  "str_find s pat pos =
     (if length s < pos then None
      else map_option (\<lambda>i. pos + i) (first_match pat (drop pos s)))"

text \<open>\<open>s.rfind(c)\<close>: the highest index holding the character \<open>c\<close>.\<close>

fun str_rfind :: "string \<Rightarrow> char \<Rightarrow> nat option" where
  "str_rfind [] c = None"
| "str_rfind (x # xs) c =
     (case str_rfind xs c of
        Some i \<Rightarrow> Some (Suc i)
      | None \<Rightarrow> if x = c then Some 0 else None)"

text \<open>\<open>s.find_first_not_of(cs)\<close> and \<open>s.find_last_not_of(cs)\<close>.\<close>

fun find_first_not_of :: "string \<Rightarrow> string \<Rightarrow> nat option" where
  "find_first_not_of [] cs = None"
| "find_first_not_of (x # xs) cs =
     (if x \<in> set cs then map_option Suc (find_first_not_of xs cs) else Some 0)"

fun find_last_not_of :: "string \<Rightarrow> string \<Rightarrow> nat option" where
  "find_last_not_of [] cs = None"
| "find_last_not_of (x # xs) cs =
     (case find_last_not_of xs cs of
        Some i \<Rightarrow> Some (Suc i)
      | None \<Rightarrow> if x \<in> set cs then None else Some 0)"

text \<open>
  \<open>s.substr(pos, n)\<close>, \<open>s.replace(pos, n, t)\<close> and \<open>s.erase(pos, n)\<close>. Each of them
  clips \<open>n\<close> at the end of the string, as \<open>take\<close> and \<open>drop\<close> do, and throws
  \<open>std::out_of_range\<close> when \<open>pos\<close> exceeds the size; every call in the program passes a
  position inside the string (lemmas \<open>str_find_bounds\<close>, \<open>str_rfind_less\<close> below).
\<close>

definition substr :: "string \<Rightarrow> nat \<Rightarrow> nat \<Rightarrow> string" where
  "substr s pos n = take n (drop pos s)"

definition str_replace :: "string \<Rightarrow> nat \<Rightarrow> nat \<Rightarrow> string \<Rightarrow> string" where
  "str_replace s pos n t = take pos s @ t @ drop (pos + n) s"

definition erase :: "string \<Rightarrow> nat \<Rightarrow> nat \<Rightarrow> string" where
  "erase s pos n = take pos s @ drop (pos + n) s"

section \<open>Integers of type \<open>int\<close>\<close>

text \<open>
  An \<open>int\<close> is 32 bits wide. The model keeps mathematical integers and writes the
  two's complement wrap-around out at every arithmetic operation of the source.
\<close>

definition INT_MIN :: int where "INT_MIN = - 2147483648"
definition INT_MAX :: int where "INT_MAX = 2147483647"

definition wrap_int :: "int \<Rightarrow> int" where
  "wrap_int x = (x + 2147483648) mod 4294967296 - 2147483648"

section \<open>\<open>std::stoi\<close> and \<open>std::to_string\<close>\<close>

text \<open>
  \<open>std::stoi(str)\<close> runs \<open>strtol\<close> in base 10: it skips leading white space
  (\<open>isspace\<close>), reads an optional sign, then the longest run of decimal digits, and ignores
  what follows. It throws \<open>std::invalid_argument\<close> when there is no digit to read and
  \<open>std::out_of_range\<close> when the value does not fit an \<open>int\<close>.
\<close>

datatype stoi_error = InvalidArgument | OutOfRange

definition isspace :: "char \<Rightarrow> bool" where
  "isspace c = (c \<in> set [CHR '' '', CHR 0x09, CHR 0x0A, CHR 0x0B, CHR 0x0C, CHR 0x0D])"

definition isdigit :: "char \<Rightarrow> bool" where
  "isdigit c = (c \<in> set ''0123456789'')"

definition digit_val :: "char \<Rightarrow> int" where
  "digit_val c = int (of_char c) - 48"

definition digits_val :: "string \<Rightarrow> int" where
  "digits_val ds = foldl (\<lambda>acc c. acc * 10 + digit_val c) 0 ds"

definition stoi :: "string \<Rightarrow> stoi_error + int" where
  "stoi str =
     (let s1 = dropWhile isspace str;
          neg = (case s1 of c # _ \<Rightarrow> c = CHR ''-'' | [] \<Rightarrow> False);
          s2 = (case s1 of c # r \<Rightarrow> if c = CHR ''-'' \<or> c = CHR ''+'' then r else s1 | [] \<Rightarrow> s1);
          ds = takeWhile isdigit s2;
          v = (if neg then - digits_val ds else digits_val ds)
      in if ds = [] then Inl InvalidArgument
         else if v < INT_MIN \<or> INT_MAX < v then Inl OutOfRange
         else Inr v)"

text \<open>\<open>std::to_string(int)\<close>: the decimal digits, after a minus sign for a negative value.\<close>

fun nat_digits :: "nat \<Rightarrow> string" where
  "nat_digits n =
     (if n < 10 then [''0123456789'' ! n]
      else nat_digits (n div 10) @ [''0123456789'' ! (n mod 10)])"

declare nat_digits.simps [simp del]

definition to_string :: "int \<Rightarrow> string" where
  "to_string i = (if i < 0 then CHR ''-'' # nat_digits (nat (- i)) else nat_digits (nat i))"

text \<open>
  \<open>stream << std::setw(2) << std::setfill('0') << n\<close>: the text of \<open>n\<close>, filled on the
  left with \<open>'0'\<close> up to width 2.
\<close>

definition setw2 :: "int \<Rightarrow> string" where
  "setw2 n = replicate (2 - length (to_string n)) (CHR ''0'') @ to_string n"

section \<open>Calendar dates: \<open>std::tm\<close>, \<open>std::mktime\<close> and \<open>addDays\<close>\<close>

text \<open>
  The fields of \<open>std::tm\<close> that the program reads or writes. \<open>tm_mon\<close> counts from 0,
  \<open>tm_year\<close> from 1900, \<open>tm_wday\<close> from Sunday. The time of day and \<open>tm_isdst\<close> are
  zero in every date the program builds (\<open>std::tm startDate = {}\<close>) and are left out.
\<close>

record tm =
  tm_mday :: int
  tm_mon :: int
  tm_year :: int
  tm_wday :: int
  tm_yday :: int

definition is_leap :: "int \<Rightarrow> bool" where
  "is_leap y =
     (if y mod 400 = 0 then True else if y mod 100 = 0 then False else y mod 4 = 0)"

text \<open>
  Months are numbered on one axis: month index \<open>k\<close> is month \<open>k mod 12\<close> (0 is January)
  of the year \<open>1900 + k div 12\<close>, so that the month after \<open>k\<close> is \<open>k + 1\<close> across the
  turn of a year.
\<close>

definition days_in_month :: "int \<Rightarrow> int" where
  "days_in_month k =
     (let m = k mod 12 in
      if m = 1 then (if is_leap (1900 + k div 12) then 29 else 28)
      else if m = 3 \<or> m = 5 \<or> m = 8 \<or> m = 10 then 30
      else 31)"

text \<open>
  Modelled from the spec: \<open>std::mktime\<close> is a function of the C library, not of this
  repository. Section 4.1 of the specification states what the program relies on: days that
  overflow or underflow the month roll into the following or preceding months and years, and
  the weekday and the day of the year are recomputed from the normalized date by the
  proleptic Gregorian rules. Time zones and daylight saving time are outside the model. The
  model is \<open>mktime\<close> below, built from \<open>roll_days\<close>, \<open>weekday\<close> and \<open>yearday\<close>.

  \<open>roll_days k d\<close> carries day \<open>d\<close> of the month with index \<open>k\<close> into the month it
  falls in.
\<close>

function roll_days :: "int \<Rightarrow> int \<Rightarrow> int \<times> int" where
  "roll_days k d =
     (if d < 1 then roll_days (k - 1) (d + days_in_month (k - 1))
      else if days_in_month k < d then roll_days (k + 1) (d - days_in_month k)
      else (k, d))"
  by pat_completeness auto

text \<open>
  Modelled from the spec: the weekday and the day of the year that \<open>std::mktime\<close>
  recomputes, by the proleptic Gregorian rules. \<open>days_from_civil\<close> counts the days since
  1970-01-01 (a Thursday) of a civil date with the month from 1 to 12.
\<close>

definition days_from_civil :: "int \<Rightarrow> int \<Rightarrow> int \<Rightarrow> int" where
  "days_from_civil Y M D =
     (let y = (if M \<le> 2 then Y - 1 else Y);
          era = y div 400;
          yoe = y - era * 400;
          mp = (M + 9) mod 12;
          doy = (153 * mp + 2) div 5 + D - 1;
          doe = yoe * 365 + yoe div 4 - yoe div 100 + doy
      in era * 146097 + doe - 719468)"

definition weekday :: "int \<Rightarrow> int \<Rightarrow> int" where
  "weekday k d = (days_from_civil (1900 + k div 12) (k mod 12 + 1) d + 4) mod 7"

definition yearday :: "int \<Rightarrow> int \<Rightarrow> int" where
  "yearday k d =
     (let m = k mod 12 in
      [0, 31, 59, 90, 120, 151, 181, 212, 243, 273, 304, 334] ! nat m
      + (if 1 < m \<and> is_leap (1900 + k div 12) then 1 else 0) + d - 1)"

text \<open>
  Two readings of \<open>days_from_civil\<close>, used to check the calendar against itself:
  \<open>year_start y\<close> is the part that depends on the (March-based) year, and
  \<open>civil_day k d\<close> is the day number of day \<open>d\<close> of the month with index \<open>k\<close>.
\<close>

definition year_start :: "int \<Rightarrow> int" where
  "year_start y = y div 400 * 146097 + (y - y div 400 * 400) * 365
                    + (y - y div 400 * 400) div 4 - (y - y div 400 * 400) div 100"

definition civil_day :: "int \<Rightarrow> int \<Rightarrow> int" where
  "civil_day k d = days_from_civil (1900 + k div 12) (k mod 12 + 1) d"

text \<open>
  Modelled from the spec: \<open>std::mktime\<close>, as described above. A month outside 0 to 11 is
  carried into the year by the month index.
\<close>

definition mktime :: "tm \<Rightarrow> tm" where
  "mktime t =
     (case roll_days (tm_year t * 12 + tm_mon t) (tm_mday t) of
        (k, d) \<Rightarrow>
          \<lparr>tm_mday = d, tm_mon = k mod 12, tm_year = k div 12,
           tm_wday = weekday k d, tm_yday = yearday k d\<rparr>)"

text \<open>
  \<open>addDays\<close> (lines 130 to 136): \<open>baseDate.tm_mday += days\<close> is an addition of two
  \<open>int\<close>s, then \<open>std::mktime\<close> normalizes the date.
\<close>

definition addDays :: "tm \<Rightarrow> int \<Rightarrow> tm" where
  "addDays baseDate days = mktime (baseDate\<lparr>tm_mday := wrap_int (tm_mday baseDate + days)\<rparr>)"

termination roll_days
proof (relation "measure (\<lambda>(k, d). nat (if d < 1 then 32 - d else d))")
  show "wf (measure (\<lambda>(k, d). nat (if d < 1 then 32 - d else d)))"
    by simp
next
  fix k d :: int
  assume "d < 1"
  moreover have "28 \<le> days_in_month (k - 1) \<and> days_in_month (k - 1) \<le> 31"
    by (simp add: days_in_month_def Let_def)
  ultimately show "((k - 1, d + days_in_month (k - 1)), (k, d))
          \<in> measure (\<lambda>(k, d). nat (if d < 1 then 32 - d else d))"
    by auto
next
  fix k d :: int
  assume "\<not> d < 1" and "days_in_month k < d"
  moreover have "28 \<le> days_in_month k \<and> days_in_month k \<le> 31"
    by (simp add: days_in_month_def Let_def)
  ultimately show "((k + 1, d - days_in_month k), (k, d))
          \<in> measure (\<lambda>(k, d). nat (if d < 1 then 32 - d else d))"
    by auto
qed

declare roll_days.simps [simp del]

section \<open>The template formatter \<open>formatDate\<close>\<close>

text \<open>
  A result of type \<open>option\<close> is \<open>None\<close> where the C++ code yields no value: a loop that
  never ends, or a read outside one of the name arrays (\<open>monthNames[date.tm_mon]\<close> with
  \<open>tm_mon\<close> outside 0 to 11).
\<close>

definition monthNames :: "string list" where
  "monthNames = [''January'', ''February'', ''March'', ''April'', ''May'', ''June'', ''July'',
     ''August'', ''September'', ''October'', ''November'', ''December'']"

definition monthAbbrs :: "string list" where
  "monthAbbrs = [''Jan'', ''Feb'', ''Mar'', ''Apr'', ''May'', ''Jun'', ''Jul'', ''Aug'', ''Sep'',
     ''Oct'', ''Nov'', ''Dec'']"

definition dayNames :: "string list" where
  "dayNames = [''Sunday'', ''Monday'', ''Tuesday'', ''Wednesday'', ''Thursday'', ''Friday'',
     ''Saturday'']"

definition dayAbbrs :: "string list" where
  "dayAbbrs = [''Sun'', ''Mon'', ''Tue'', ''Wed'', ''Thu'', ''Fri'', ''Sat'']"

definition array_at :: "'a list \<Rightarrow> int \<Rightarrow> 'a option" where
  "array_at xs i = (if 0 \<le> i \<and> i < int (length xs) then Some (xs ! nat i) else None)"

text \<open>
  The inner loop of lines 179 to 183, for one pair \<open>(from, to)\<close>:
  \<^verbatim>\<open>while ((start_pos = format.find(from, start_pos)) != npos) {
    format.replace(start_pos, from.length(), to);  start_pos += to.length(); }\<close>
\<close>

partial_function (option) replace_loop :: "string \<Rightarrow> string \<Rightarrow> string \<Rightarrow> nat \<Rightarrow> string option" where
  "replace_loop from to format start_pos =
     (case str_find format from start_pos of
        None \<Rightarrow> Some format
      | Some p \<Rightarrow> replace_loop from to (str_replace format p (length from) to) (p + length to))"

declare replace_loop.simps [code]

text \<open>The outer loop of line 176, over the list of replacements in its order.\<close>

fun apply_replacements :: "(string \<times> string) list \<Rightarrow> string \<Rightarrow> string option" where
  "apply_replacements [] format = Some format"
| "apply_replacements ((from, to) # repls) format =
     (case replace_loop from to format 0 of
        None \<Rightarrow> None
      | Some format' \<Rightarrow> apply_replacements repls format')"

definition replacements :: "string \<Rightarrow> string \<Rightarrow> string \<Rightarrow> string \<Rightarrow> string \<Rightarrow> string \<Rightarrow> string
    \<Rightarrow> (string \<times> string) list" where
  "replacements yearStr monthFullNameStr monthAbbrStr dayFullNameStr dayNameAbbrStr
      dayPaddedStr dayStr =
     [(''YYYY'', yearStr), (''MM'', monthFullNameStr), (''NN'', dayFullNameStr),
      (''DD'', dayPaddedStr), (''Y'', yearStr), (''M'', monthAbbrStr),
      (''N'', dayNameAbbrStr), (''D'', dayStr)]"

definition formatDate :: "tm \<Rightarrow> string \<Rightarrow> string option" where
  "formatDate date format =
     do {
       let yearStr = to_string (wrap_int (tm_year date + 1900));
       monthFullNameStr \<leftarrow> array_at monthNames (tm_mon date);
       monthAbbrStr \<leftarrow> array_at monthAbbrs (tm_mon date);
       dayFullNameStr \<leftarrow> array_at dayNames (tm_wday date);
       dayNameAbbrStr \<leftarrow> array_at dayAbbrs (tm_wday date);
       let dayPaddedStr = setw2 (tm_mday date);
       let dayStr = to_string (tm_mday date);
       apply_replacements
         (replacements yearStr monthFullNameStr monthAbbrStr dayFullNameStr dayNameAbbrStr
            dayPaddedStr dayStr)
         format
     }"

section \<open>The directive scanner of \<open>processFile\<close>\<close>

text \<open>
  What the program prints: the debugging lines on \<open>std::cout\<close> (the path stands for its
  file name component), the warnings on \<open>std::cerr\<close>, and, so that a rewrite with equal
  content can be told from no rewrite, each write of a file.
\<close>

datatype event =
    DebugParse string string string
  | WarnInvalidDay string
  | WarnOpen string
  | WarnWrite string
  | FileWritten string string

record scan_state =
  content :: string
  searchPos :: nat
  modified :: bool
  printed :: "event list"

definition startMarker :: string where
  "startMarker = ''DateReplace(''"

definition trimChars :: string where
  "trimChars = [CHR '' '', CHR 0x09, CHR 0x0A, CHR 0x0D, CHR 0x22, CHR ''_'', CHR ''('', CHR '')'']"

text \<open>
  Lines 273 and 274. \<open>formatStr.erase(0, npos)\<close> empties the string;
  \<open>find_last_not_of(...) + 1\<close> is 0 when the search gives \<open>npos\<close>, and \<open>erase(pos)\<close>
  removes everything from \<open>pos\<close> on.
\<close>

definition trim :: "string \<Rightarrow> string" where
  "trim formatStr =
     (let s1 = (case find_first_not_of formatStr trimChars of
                  None \<Rightarrow> []
                | Some n \<Rightarrow> erase formatStr 0 n)
      in case find_last_not_of s1 trimChars of
           None \<Rightarrow> take 0 s1
         | Some i \<Rightarrow> take (i + 1) s1)"

text \<open>
  Lines 272 to 287: the format is trimmed, the date computed and rendered, the target span
  replaced, and the cursor put just after the inserted text.
\<close>

definition apply_directive :: "tm \<Rightarrow> int \<Rightarrow> string \<Rightarrow> int \<Rightarrow> nat \<Rightarrow> nat \<Rightarrow> scan_state
    \<Rightarrow> scan_state option" where
  "apply_directive startDate startIndex formatStr dayOffset replaceStartPos replaceEndPos st =
     (let finalDayOffset = wrap_int (dayOffset - startIndex);
          targetDate = addDays startDate finalDayOffset
      in case formatDate targetDate (trim formatStr) of
           None \<Rightarrow> None
         | Some newDateStr \<Rightarrow>
             Some (st\<lparr>content := str_replace (content st) replaceStartPos
                                  (replaceEndPos - replaceStartPos) newDateStr,
                      searchPos := replaceStartPos + length newDateStr\<rparr>))"

text \<open>
  The body of the \<open>while\<close> loop (lines 226 to 287). On entry \<open>searchPos st\<close> is the
  position of the marker, as the loop condition has just assigned it. Each \<open>continue\<close>
  returns the state as it is at that point.
\<close>

definition loop_body :: "string \<Rightarrow> tm \<Rightarrow> int \<Rightarrow> scan_state \<Rightarrow> scan_state option" where
  "loop_body filePath startDate startIndex st0 =
     (let st = st0\<lparr>modified := True\<rparr>;
          openParenPos = searchPos st + length startMarker
      in case str_find (content st) '')'' openParenPos of
           None \<Rightarrow> Some st
         | Some closeParenPos \<Rightarrow>
      (case str_find (content st) ''>'' closeParenPos of
           None \<Rightarrow> Some st
         | Some gtPos \<Rightarrow>
      (let replaceStartPos = gtPos + 1
       in case str_find (content st) ''<'' replaceStartPos of
           None \<Rightarrow> Some st
         | Some replaceEndPos \<Rightarrow>
      (let argsStr = substr (content st) openParenPos (closeParenPos - openParenPos)
       in case str_rfind argsStr (CHR '','') of
           None \<Rightarrow>
             apply_directive startDate startIndex argsStr startIndex
               replaceStartPos replaceEndPos st
         | Some commaPos \<Rightarrow>
             (let formatStr = substr argsStr 0 commaPos;
                  dayOffsetStr = drop (commaPos + 1) argsStr;
                  st' = st\<lparr>printed := printed st @ [DebugParse filePath argsStr dayOffsetStr]\<rparr>
              in case stoi dayOffsetStr of
                   Inl e \<Rightarrow>
                     Some (st'\<lparr>printed := printed st' @ [WarnInvalidDay filePath],
                               searchPos := closeParenPos\<rparr>)
                 | Inr dayOffset \<Rightarrow>
                     apply_directive startDate startIndex formatStr dayOffset
                       replaceStartPos replaceEndPos st')))))"

text \<open>
  What lines 242 to 270 read from the argument text, as two functions of it: the format
  part, and the day number (\<open>None\<close> on the path of the warning). Lemma
  \<open>loop_body_parsed\<close> shows that \<open>loop_body\<close> computes exactly these.
\<close>

definition format_part :: "string \<Rightarrow> string" where
  "format_part argsStr =
     (case str_rfind argsStr (CHR '','') of
        None \<Rightarrow> argsStr
      | Some commaPos \<Rightarrow> substr argsStr 0 commaPos)"

definition day_number :: "string \<Rightarrow> int \<Rightarrow> int option" where
  "day_number argsStr startIndex =
     (case str_rfind argsStr (CHR '','') of
        None \<Rightarrow> Some startIndex
      | Some commaPos \<Rightarrow>
          (case stoi (drop (commaPos + 1) argsStr) of
             Inl e \<Rightarrow> None
           | Inr dayOffset \<Rightarrow> Some dayOffset))"

text \<open>The debugging line is printed exactly when the argument text has a comma.\<close>

definition debug_lines :: "string \<Rightarrow> string \<Rightarrow> event list" where
  "debug_lines filePath argsStr =
     (case str_rfind argsStr (CHR '','') of
        None \<Rightarrow> []
      | Some commaPos \<Rightarrow> [DebugParse filePath argsStr (drop (commaPos + 1) argsStr)])"

text \<open>
  The loop of line 225:
  \<^verbatim>\<open>while ((searchPos = content.find(startMarker, searchPos)) != npos) { ... }\<close>
\<close>

partial_function (option) scan_loop :: "string \<Rightarrow> tm \<Rightarrow> int \<Rightarrow> scan_state \<Rightarrow> scan_state option" where
  "scan_loop filePath startDate startIndex st =
     (case str_find (content st) startMarker (searchPos st) of
        None \<Rightarrow> Some st
      | Some p \<Rightarrow>
          (case loop_body filePath startDate startIndex (st\<lparr>searchPos := p\<rparr>) of
             None \<Rightarrow> None
           | Some st' \<Rightarrow> scan_loop filePath startDate startIndex st'))"

declare scan_loop.simps [code]

text \<open>The scan of one buffer, from lines 221 to 223: cursor 0, nothing modified yet.\<close>

definition scan :: "string \<Rightarrow> tm \<Rightarrow> int \<Rightarrow> string \<Rightarrow> scan_state option" where
  "scan filePath startDate startIndex text =
     scan_loop filePath startDate startIndex
       \<lparr>content = text, searchPos = 0, modified = False, printed = []\<rparr>"

section \<open>\<open>processFile\<close> and the files\<close>

text \<open>
  A file has its bytes and whether it can be opened for reading and for writing; the
  file system maps paths to files. \<open>filePath.extension()\<close> belongs to
  \<open>std::filesystem\<close> and is passed in as \<open>extension\<close>.
\<close>

record file_node =
  bytes :: string
  can_read :: bool
  can_write :: bool

type_synonym filesystem = "string \<rightharpoonup> file_node"

definition validExtensions :: "string list" where
  "validExtensions = [''.html'', ''.htm'', ''.xml'', ''.txt'']"

definition can_open :: "filesystem \<Rightarrow> string \<Rightarrow> file_node option" where
  "can_open fs filePath =
     (case fs filePath of
        None \<Rightarrow> None
      | Some f \<Rightarrow> if can_read f then Some f else None)"

definition processFile :: "filesystem \<Rightarrow> string \<Rightarrow> string \<Rightarrow> tm \<Rightarrow> int
    \<Rightarrow> (filesystem \<times> event list) option" where
  "processFile fs filePath extension startDate startIndex =
     (if extension \<notin> set validExtensions then Some (fs, [])
      else case can_open fs filePath of
             None \<Rightarrow> Some (fs, [WarnOpen filePath])
           | Some f \<Rightarrow>
      (case scan filePath startDate startIndex (bytes f) of
             None \<Rightarrow> None
           | Some st \<Rightarrow>
               if modified st then
                 (if can_write f
                  then Some (fs(filePath \<mapsto> f\<lparr>bytes := content st\<rparr>),
                             printed st @ [FileWritten filePath (content st)])
                  else Some (fs, printed st @ [WarnWrite filePath]))
               else Some (fs, printed st)))"

text \<open>
  The occurrences that the scan skips with the warning. \<open>skipped_at text startIndex p\<close>
  says that the marker at position \<open>p\<close> has its closing parenthesis and its target span
  and that no day number can be read from its argument text; \<open>all_skipped\<close> says so of
  every position of \<open>text\<close> at which the marker starts.
\<close>

definition skipped_at :: "string \<Rightarrow> int \<Rightarrow> nat \<Rightarrow> bool" where
  "skipped_at text startIndex p =
     (case str_find text '')'' (p + length startMarker) of
        None \<Rightarrow> False
      | Some c \<Rightarrow>
     (case str_find text ''>'' c of
        None \<Rightarrow> False
      | Some g \<Rightarrow>
     (case str_find text ''<'' (g + 1) of
        None \<Rightarrow> False
      | Some e \<Rightarrow>
          day_number (substr text (p + length startMarker) (c - (p + length startMarker)))
            startIndex = None)))"

definition all_skipped :: "string \<Rightarrow> int \<Rightarrow> bool" where
  "all_skipped text startIndex =
     list_all (\<lambda>p. if prefix startMarker (drop p text) then skipped_at text startIndex p else True)
       [0..<length text]"

text \<open>The files written during a run, read off what was printed.\<close>

fun writes :: "event list \<Rightarrow> (string \<times> string) list" where
  "writes [] = []"
| "writes (FileWritten p c # es) = (p, c) # writes es"
| "writes (e # es) = writes es"


section \<open>Facts about the string operations\<close>

lemma first_match_None_iff: "first_match pat s = None \<longleftrightarrow> \<not> sublist pat s"
  by (induction s) (auto simp: sublist_Cons_right)

lemma first_match_Some:
  "first_match pat s = Some i \<Longrightarrow> i + length pat \<le> length s \<and> prefix pat (drop i s)"
proof (induction s arbitrary: i)
  case Nil
  then show ?case by (simp split: if_splits)
next
  case (Cons c cs)
  show ?case
  proof (cases "prefix pat (c # cs)")
    case True
    with Cons.prems show ?thesis by (auto dest: prefix_length_le)
  next
    case False
    with Cons.prems obtain j where j: "first_match pat cs = Some j" "i = Suc j"
      by auto
    with Cons.IH [of j] show ?thesis by simp
  qed
qed

lemma first_match_prefix: "prefix pat s \<Longrightarrow> first_match pat s = Some 0"
  by (cases s) auto

lemma str_find_bounds:
  "str_find s pat pos = Some i \<Longrightarrow> pos \<le> i \<and> i + length pat \<le> length s"
  by (auto simp: str_find_def split: if_splits dest!: first_match_Some)

lemma str_find_prefix:
  "str_find s pat pos = Some i \<Longrightarrow> prefix pat (drop i s)"
  by (auto simp: str_find_def add.commute split: if_splits dest!: first_match_Some)

lemma str_find_again: 
  assumes "str_find s pat pos = Some i" shows "str_find s pat i = Some i"
proof -
  from assms have "i \<le> length s" by (auto dest: str_find_bounds)
  moreover from assms have "first_match pat (drop i s) = Some 0"
    by (intro first_match_prefix str_find_prefix)
  ultimately show ?thesis by (simp add: str_find_def)
qed

lemma str_find_0_None_iff: "str_find s pat 0 = None \<longleftrightarrow> \<not> sublist pat s"
  by (simp add: str_find_def first_match_None_iff)

lemma str_find_skip:
  assumes "i < length s" and "pat \<noteq> []" and "s ! i \<noteq> hd pat"
  shows "str_find s pat i = str_find s pat (Suc i)"
proof -
  from assms(1) obtain c cs where d: "drop i s = c # cs" "c = s ! i" "cs = drop (Suc i) s"
    by (metis Cons_nth_drop_Suc)
  from assms(2) obtain a as where pat: "pat = a # as" by (cases pat) auto
  with assms(3) d have "\<not> prefix pat (c # cs)" by auto
  then have "first_match pat (drop i s) = map_option Suc (first_match pat (drop (Suc i) s))"
    using d by simp
  with assms(1) show ?thesis
    by (cases "first_match pat (drop (Suc i) s)") (simp_all add: str_find_def)
qed

lemma str_find_char_at:
  assumes "str_find s [c] pos = Some i" shows "i < length s \<and> s ! i = c"
proof -
  from assms have "i + 1 \<le> length s" by (auto dest: str_find_bounds)
  moreover from assms have "prefix [c] (drop i s)" by (rule str_find_prefix)
  ultimately show ?thesis
    by (auto simp: prefix_def dest!: arg_cong [where f = hd] simp: hd_drop_conv_nth)
qed

lemma str_rfind_None_iff: "str_rfind s c = None \<longleftrightarrow> c \<notin> set s"
  by (induction s) (auto split: option.splits)

lemma str_rfind_less: "str_rfind s c = Some i \<Longrightarrow> i < length s"
  by (induction s arbitrary: i) (auto split: option.splits if_splits)

lemma str_rfind_append:
  "c \<notin> set ys \<Longrightarrow> str_rfind (xs @ c # ys) c = Some (length xs)"
  by (induction xs) (auto simp: str_rfind_None_iff [THEN iffD2] split: option.splits)

section \<open>Facts about the calendar\<close>

lemma days_in_month_bounds: "28 \<le> days_in_month k \<and> days_in_month k \<le> 31"
  by (simp add: days_in_month_def Let_def)

lemma roll_days_in_range: "1 \<le> d \<Longrightarrow> d \<le> days_in_month k \<Longrightarrow> roll_days k d = (k, d)"
  by (simp add: roll_days.simps)

lemma roll_days_next: "roll_days k d = roll_days (k + 1) (d - days_in_month k)"
proof (cases "days_in_month k < d")
  case True
  with days_in_month_bounds [of k] have "\<not> d < 1" by linarith
  with True show ?thesis by (subst roll_days.simps) simp
next
  case False
  then have "d - days_in_month k < 1" by simp
  then have "roll_days (k + 1) (d - days_in_month k) = roll_days k d"
    by (subst roll_days.simps) simp
  then show ?thesis by simp
qed

lemma roll_days_prev: "roll_days k d = roll_days (k - 1) (d + days_in_month (k - 1))"
  using roll_days_next [of "k - 1" "d + days_in_month (k - 1)"] by simp

lemma roll_days_add:
  "roll_days (fst (roll_days k d)) (snd (roll_days k d) + j) = roll_days k (d + j)"
proof (induction k d rule: roll_days.induct)
  case (1 k d)
  show ?case
  proof (cases "d < 1")
    case True
    have "roll_days k d = roll_days (k - 1) (d + days_in_month (k - 1))"
      by (rule roll_days_prev)
    moreover have "roll_days k (d + j) = roll_days (k - 1) (d + days_in_month (k - 1) + j)"
      using roll_days_prev [of k "d + j"] by (simp add: ac_simps)
    ultimately show ?thesis using "1.IH"(1) [OF True] by simp
  next
    case False
    show ?thesis
    proof (cases "days_in_month k < d")
      case True
      have "roll_days k d = roll_days (k + 1) (d - days_in_month k)"
        by (rule roll_days_next)
      moreover have "roll_days k (d + j) = roll_days (k + 1) (d - days_in_month k + j)"
        using roll_days_next [of k "d + j"] by (simp add: algebra_simps)
      ultimately show ?thesis using "1.IH"(2) [OF False True] by simp
    next
      case in_range: False
      with False have "roll_days k d = (k, d)" by (simp add: roll_days.simps)
      then show ?thesis by simp
    qed
  qed
qed

lemma roll_days_valid: "1 \<le> snd (roll_days k d) \<and> snd (roll_days k d) \<le> days_in_month (fst (roll_days k d))"
proof (induction k d rule: roll_days.induct)
  case (1 k d)
  show ?case
  proof (cases "d < 1")
    case True
    with "1.IH"(1) show ?thesis by (subst (1 2 3) roll_days.simps) simp
  next
    case False
    show ?thesis
    proof (cases "days_in_month k < d")
      case True
      with False "1.IH"(2) show ?thesis by (subst (1 2 3) roll_days.simps) simp
    next
      case in_range: False
      with False show ?thesis by (simp add: roll_days.simps)
    qed
  qed
qed

lemma roll_days_le: "d \<le> days_in_month k \<Longrightarrow> fst (roll_days k d) \<le> k"
proof (induction k d rule: roll_days.induct)
  case (1 k d)
  show ?case
  proof (cases "d < 1")
    case True
    then have "d + days_in_month (k - 1) \<le> days_in_month (k - 1)" by simp
    from "1.IH"(1) [OF True this] True show ?thesis
      by (subst roll_days.simps) simp
  next
    case False
    with "1.prems" show ?thesis by (simp add: roll_days.simps)
  qed
qed

lemma roll_days_less: assumes "d < 1" shows "fst (roll_days k d) < k"
proof -
  have "d + days_in_month (k - 1) \<le> days_in_month (k - 1)" using assms by simp
  then have "fst (roll_days (k - 1) (d + days_in_month (k - 1))) \<le> k - 1"
    by (rule roll_days_le)
  then show ?thesis using roll_days_prev [of k d] by simp
qed

lemma wrap_int_id: "- 2147483648 \<le> x \<Longrightarrow> x \<le> 2147483647 \<Longrightarrow> wrap_int x = x"
  by (simp add: wrap_int_def)

lemma mktime_month_index: "tm_year (mktime t) * 12 + tm_mon (mktime t) = fst (roll_days (tm_year t * 12 + tm_mon t) (tm_mday t))"
  by (simp add: mktime_def split: prod.splits)

lemma mktime_mday: "tm_mday (mktime t) = snd (roll_days (tm_year t * 12 + tm_mon t) (tm_mday t))"
  by (simp add: mktime_def split: prod.splits)

lemma mktime_eq:
  assumes "roll_days (tm_year s * 12 + tm_mon s) (tm_mday s) = roll_days (tm_year t * 12 + tm_mon t) (tm_mday t)"
  shows "mktime s = mktime t"
  using assms by (simp add: mktime_def)

lemma mktime_mday_bounds: "1 \<le> tm_mday (mktime t) \<and> tm_mday (mktime t) \<le> 31"
  using roll_days_valid [of "tm_year t * 12 + tm_mon t" "tm_mday t"]
    days_in_month_bounds [of "fst (roll_days (tm_year t * 12 + tm_mon t) (tm_mday t))"]
  by (simp add: mktime_mday)

lemma mktime_add:
  "mktime ((mktime t)\<lparr>tm_mday := tm_mday (mktime t) + j\<rparr>) = mktime (t\<lparr>tm_mday := tm_mday t + j\<rparr>)"
  by (rule mktime_eq) (simp add: mktime_month_index mktime_mday roll_days_add)

lemma mktime_idem: "mktime (mktime t) = mktime t"
  using mktime_add [of t 0] by simp

section \<open>The weekday and the day of the year agree with the rolling of days\<close>

lemma div_step:
  fixes r n :: int
  assumes "0 < n"
  shows "r div n = (r - 1) div n + (if r mod n = 0 then 1 else 0)"
proof (cases "r mod n = 0")
  case True
  have "r = n * (r div n) + r mod n" by simp
  with True have "r - 1 = n * (r div n - 1) + (n - 1)"
    by (simp add: algebra_simps)
  then have "(r - 1) div n = r div n - 1"
    by (rule int_div_pos_eq) (use assms in simp_all)
  with True show ?thesis by simp
next
  case False
  have "0 \<le> r mod n" "r mod n < n" using assms by simp_all
  with False have m: "0 \<le> r mod n - 1" "r mod n - 1 < n" by simp_all
  have "r - 1 = n * (r div n) + (r mod n - 1)" by simp
  then have "(r - 1) div n = r div n"
    using m by (rule int_div_pos_eq)
  with False show ?thesis by simp
qed

lemma year_start_closed: "year_start y = 365 * y + y div 4 - y div 100 + y div 400"
proof -
  define e r where "e = y div 400" and "r = y mod 400"
  have y: "y = 400 * e + r" by (simp add: e_def r_def)
  have yoe: "y - y div 400 * 400 = r" using y e_def by simp
  have "400 * e + r = 4 * (100 * e) + r" by simp
  then have d4: "y div 4 = 100 * e + r div 4"
    unfolding y by (simp only: div_mult_self4)
  have "400 * e + r = 100 * (4 * e) + r" by simp
  then have d100: "y div 100 = 4 * e + r div 100"
    unfolding y by (simp only: div_mult_self4)
  show ?thesis
    unfolding year_start_def yoe d4 d100 e_def [symmetric] using y by simp
qed


lemma is_leap_alt:
  "(if is_leap y then 1 else 0) =
     (if y mod 4 = 0 then 1 else 0) - (if y mod 100 = 0 then 1 else 0)
       + (if y mod 400 = (0::int) then 1 else (0::int))"
proof -
  have d: "(4::int) dvd 100" "(100::int) dvd 400"
    by simp_all
  have a: "y mod 4 = 0" if "y mod 100 = 0"
    using that dvd_trans [OF d(1), of y] by (simp add: mod_eq_0_iff_dvd)
  have b: "y mod 100 = 0" if "y mod 400 = 0"
    using that dvd_trans [OF d(2), of y] by (simp add: mod_eq_0_iff_dvd)
  show ?thesis
  proof (cases "y mod 400 = 0")
    case True
    with a b show ?thesis by (simp add: is_leap_def)
  next
    case False
    show ?thesis
    proof (cases "y mod 100 = 0")
      case True
      with a False show ?thesis by (simp add: is_leap_def)
    next
      case n100: False
      with False show ?thesis by (simp add: is_leap_def)
    qed
  qed
qed


lemma year_length: "year_start y = year_start (y - 1) + 365 + (if is_leap y then 1 else 0)"
proof -
  define a4 a100 a400 :: int
    where "a4 = (if y mod 4 = 0 then 1 else 0)"
      and "a100 = (if y mod 100 = 0 then 1 else 0)"
      and "a400 = (if y mod 400 = 0 then 1 else 0)"
  define p4 p100 p400 where "p4 = (y - 1) div 4" and "p100 = (y - 1) div 100"
    and "p400 = (y - 1) div 400"
  have d4: "y div 4 = p4 + a4"
    unfolding a4_def p4_def by (rule div_step) simp
  have d100: "y div 100 = p100 + a100"
    unfolding a100_def p100_def by (rule div_step) simp
  have d400: "y div 400 = p400 + a400"
    unfolding a400_def p400_def by (rule div_step) simp
  have "year_start y = 365 * y + (p4 + a4) - (p100 + a100) + (p400 + a400)"
    unfolding year_start_closed d4 d100 d400 ..
  moreover have "year_start (y - 1) = 365 * (y - 1) + p4 - p100 + p400"
    unfolding year_start_closed p4_def p100_def p400_def ..
  moreover have "(if is_leap y then 1 else 0) = a4 - a100 + a400"
    unfolding is_leap_alt a4_def a100_def a400_def ..
  ultimately show ?thesis
    by (simp only:) (simp add: algebra_simps)
qed

lemma days_from_civil_alt:
  "days_from_civil Y M D =
     year_start (if M \<le> 2 then Y - 1 else Y) + (153 * ((M + 9) mod 12) + 2) div 5 + D - 719469"
  by (simp add: days_from_civil_def year_start_def Let_def)

lemma next_month_index:
  fixes k :: int
  shows "(k + 1) div 12 = (if k mod 12 = 11 then k div 12 + 1 else k div 12)"
    and "(k + 1) mod 12 = (if k mod 12 = 11 then 0 else k mod 12 + 1)"
proof -
  have k: "k = 12 * (k div 12) + k mod 12" by simp
  have m: "0 \<le> k mod 12" "k mod 12 < 12" by simp_all
  show "(k + 1) div 12 = (if k mod 12 = 11 then k div 12 + 1 else k div 12)"
  proof (cases "k mod 12 = 11")
    case True
    with k have "k + 1 = 12 * (k div 12 + 1) + 0" by (simp add: algebra_simps)
    then have "(k + 1) div 12 = k div 12 + 1" by (rule int_div_pos_eq) simp_all
    with True show ?thesis by simp
  next
    case False
    from k have "k + 1 = 12 * (k div 12) + (k mod 12 + 1)" by simp
    then have "(k + 1) div 12 = k div 12"
      by (rule int_div_pos_eq) (use m False in simp_all)
    with False show ?thesis by simp
  qed
  show "(k + 1) mod 12 = (if k mod 12 = 11 then 0 else k mod 12 + 1)"
  proof (cases "k mod 12 = 11")
    case True
    with k have "k + 1 = 12 * (k div 12 + 1) + 0" by (simp add: algebra_simps)
    then have "(k + 1) mod 12 = 0" by (rule int_mod_pos_eq) simp_all
    with True show ?thesis by simp
  next
    case False
    from k have "k + 1 = 12 * (k div 12) + (k mod 12 + 1)" by simp
    then have "(k + 1) mod 12 = k mod 12 + 1"
      by (rule int_mod_pos_eq) (use m False in simp_all)
    with False show ?thesis by simp
  qed
qed

lemma civil_day_next: "civil_day (k + 1) (d - days_in_month k) = civil_day k d"
proof -
  define q m where "q = k div 12" and "m = k mod 12"
  have "0 \<le> m" "m < 12" by (simp_all add: m_def)
  then consider "m = 0" | "m = 1" | "m = 2" | "m = 3" | "m = 4" | "m = 5" | "m = 6"
    | "m = 7" | "m = 8" | "m = 9" | "m = 10" | "m = 11"
    by atomize_elim presburger
  then show ?thesis
  proof cases
    case 2
    have "year_start (1900 + q) = year_start (1899 + q) + 365 + (if is_leap (1900 + q) then 1 else 0)"
      using year_length [of "1900 + q"] by simp
    with 2 show ?thesis
      unfolding civil_day_def days_from_civil_alt next_month_index days_in_month_def
        q_def [symmetric] m_def [symmetric] Let_def
      by simp
  qed (simp_all add: civil_day_def days_from_civil_alt next_month_index days_in_month_def
        q_def [symmetric] m_def [symmetric] Let_def)
qed

lemma civil_day_prev: "civil_day (k - 1) (d + days_in_month (k - 1)) = civil_day k d"
  using civil_day_next [of "k - 1" "d + days_in_month (k - 1)"] by simp

lemma civil_day_roll_days:
  "civil_day (fst (roll_days k d)) (snd (roll_days k d)) = civil_day k d"
proof (induction k d rule: roll_days.induct)
  case (1 k d)
  show ?case
  proof (cases "d < 1")
    case True
    with "1.IH"(1) show ?thesis
      by (subst (1 2) roll_days.simps) (simp add: civil_day_prev)
  next
    case False
    show ?thesis
    proof (cases "days_in_month k < d")
      case True
      with False "1.IH"(2) show ?thesis
        by (subst (1 2) roll_days.simps) (simp add: civil_day_next)
    next
      case in_range: False
      with False show ?thesis by (simp add: roll_days.simps)
    qed
  qed
qed

lemma civil_day_add: "civil_day k (d + n) = civil_day k d + n"
  by (simp add: civil_day_def days_from_civil_alt)

lemma weekday_civil_day: "weekday k d = (civil_day k d + 4) mod 7"
  by (simp add: weekday_def civil_day_def)

text \<open>
  The weekday that \<open>mktime\<close> stores moves on by one with every day added, modulo 7: with
  one date whose weekday is known (01/15/2024 is a Monday, claim C6) this fixes the weekday
  of every date.
\<close>

lemma mktime_weekday_shift:
  "tm_wday (mktime (t\<lparr>tm_mday := tm_mday t + n\<rparr>)) = (tm_wday (mktime t) + n) mod 7"
proof -
  let ?k = "tm_year t * 12 + tm_mon t"
  have "tm_wday (mktime (t\<lparr>tm_mday := tm_mday t + n\<rparr>))
      = (civil_day (fst (roll_days ?k (tm_mday t + n))) (snd (roll_days ?k (tm_mday t + n))) + 4) mod 7"
    by (simp add: mktime_def weekday_civil_day case_prod_beta)
  also have "\<dots> = (civil_day ?k (tm_mday t) + n + 4) mod 7"
    by (simp only: civil_day_roll_days civil_day_add)
  also have "\<dots> = (civil_day ?k (tm_mday t) + 4 + n) mod 7"
    by (simp add: algebra_simps)
  also have "\<dots> = ((civil_day ?k (tm_mday t) + 4) mod 7 + n) mod 7"
    by (rule mod_add_left_eq [symmetric])
  also have "(civil_day ?k (tm_mday t) + 4) mod 7 = tm_wday (mktime t)"
    using civil_day_roll_days [of ?k "tm_mday t"]
    by (simp add: mktime_def weekday_civil_day case_prod_beta)
  finally show ?thesis .
qed

text \<open>The day of the year is the number of days since the first of January.\<close>

lemma yearday_civil_day: "yearday k d = civil_day k d - civil_day (k - k mod 12) 1"
proof -
  define q m where "q = k div 12" and "m = k mod 12"
  have k: "k - m = 12 * q" by (simp add: q_def m_def minus_mod_eq_mult_div)
  have jan: "(12 * q) div 12 = q" "(12 * q) mod 12 = 0" by simp_all
  have ys: "year_start (1900 + q) = year_start (1899 + q) + 365 + (if is_leap (1900 + q) then 1 else 0)"
    using year_length [of "1900 + q"] by simp
  have "0 \<le> m" "m < 12" by (simp_all add: m_def)
  then consider "m = 0" | "m = 1" | "m = 2" | "m = 3" | "m = 4" | "m = 5" | "m = 6"
    | "m = 7" | "m = 8" | "m = 9" | "m = 10" | "m = 11"
    by atomize_elim presburger
  then show ?thesis
    unfolding yearday_def civil_day_def days_from_civil_alt q_def [symmetric] m_def [symmetric]
      k jan Let_def
    by cases (simp_all add: ys)
qed

section \<open>The loops of \<open>formatDate\<close> end\<close>

lemma replace_loop_total:
  assumes "from \<noteq> []"
  shows "\<exists>r. replace_loop from to format start_pos = Some r"
proof (induction "length format - start_pos" arbitrary: format start_pos rule: less_induct)
  case less
  show ?case
  proof (cases "str_find format from start_pos")
    case None
    then show ?thesis by (subst replace_loop.simps) simp
  next
    case (Some p)
    then have b: "start_pos \<le> p \<and> p + length from \<le> length format"
      by (rule str_find_bounds)
    let ?format' = "str_replace format p (length from) to"
    have "length ?format' - (p + length to) = length format - (p + length from)"
      using b by (simp add: str_replace_def)
    also have "\<dots> < length format - start_pos"
    proof -
      from assms have "0 < length from" by simp
      with b show ?thesis by linarith
    qed
    finally have "\<exists>r. replace_loop from to ?format' (p + length to) = Some r"
      by (rule less)
    with Some show ?thesis by (subst replace_loop.simps) simp
  qed
qed

lemma apply_replacements_total:
  assumes "[] \<notin> fst ` set repls"
  shows "\<exists>r. apply_replacements repls format = Some r"
  using assms
proof (induction repls arbitrary: format)
  case Nil
  then show ?case by simp
next
  case (Cons a repls)
  obtain "from" to where a: "a = (from, to)" by (cases a)
  with Cons.prems have "from \<noteq> []" by auto
  then obtain f' where "replace_loop from to format 0 = Some f'"
    using replace_loop_total by blast
  moreover from Cons.prems have "[] \<notin> fst ` set repls" by auto
  then have "\<exists>r. apply_replacements repls f' = Some r" by (rule Cons.IH)
  ultimately show ?case by (simp add: a)
qed

lemma replacements_nonempty:
  "[] \<notin> fst ` set (replacements y mf ma df da dp ds)"
  by (simp add: replacements_def)

lemma formatDate_total:
  assumes "0 \<le> tm_mon date" "tm_mon date < 12" "0 \<le> tm_wday date" "tm_wday date < 7"
  shows "\<exists>r. formatDate date format = Some r"
proof -
  obtain mf where mf: "array_at monthNames (tm_mon date) = Some mf"
    using assms by (simp add: array_at_def monthNames_def)
  obtain ma where ma: "array_at monthAbbrs (tm_mon date) = Some ma"
    using assms by (simp add: array_at_def monthAbbrs_def)
  obtain df where df: "array_at dayNames (tm_wday date) = Some df"
    using assms by (simp add: array_at_def dayNames_def)
  obtain da where da: "array_at dayAbbrs (tm_wday date) = Some da"
    using assms by (simp add: array_at_def dayAbbrs_def)
  show ?thesis
    unfolding formatDate_def mf ma df da
    using apply_replacements_total [OF replacements_nonempty] by simp
qed

lemma mktime_ranges:
  "0 \<le> tm_mon (mktime t) \<and> tm_mon (mktime t) < 12 \<and> 0 \<le> tm_wday (mktime t) \<and> tm_wday (mktime t) < 7"
  by (simp add: mktime_def weekday_def split: prod.splits)

lemma formatDate_addDays_total: "\<exists>r. formatDate (addDays d n) format = Some r"
  unfolding addDays_def using mktime_ranges by (intro formatDate_total) simp_all

section \<open>Facts about the scanning loop\<close>

lemma loop_body_parsed:
  assumes "str_find (content st) '')'' (searchPos st + length startMarker) = Some c"
    and "str_find (content st) ''>'' c = Some g"
    and "str_find (content st) ''<'' (g + 1) = Some e"
  shows "loop_body filePath startDate startIndex st =
     (let argsStr = substr (content st) (searchPos st + length startMarker)
                      (c - (searchPos st + length startMarker));
          st' = st\<lparr>modified := True, printed := printed st @ debug_lines filePath argsStr\<rparr>
      in case day_number argsStr startIndex of
           None \<Rightarrow> Some (st'\<lparr>printed := printed st' @ [WarnInvalidDay filePath], searchPos := c\<rparr>)
         | Some dayOffset \<Rightarrow>
             apply_directive startDate startIndex (format_part argsStr) dayOffset (g + 1) e st')"
  using assms
  by (simp add: loop_body_def day_number_def format_part_def debug_lines_def Let_def
      split: option.splits sum.splits)


lemma scan_loop_exit:
  "str_find (content st) startMarker (searchPos st) = None \<Longrightarrow>
   scan_loop filePath startDate startIndex st = Some st"
  by (subst scan_loop.simps) simp

lemma scan_loop_step:
  "str_find (content st) startMarker (searchPos st) = Some p \<Longrightarrow>
   loop_body filePath startDate startIndex (st\<lparr>searchPos := p\<rparr>) = Some st' \<Longrightarrow>
   scan_loop filePath startDate startIndex st = scan_loop filePath startDate startIndex st'"
  by (subst scan_loop.simps) simp

lemma loop_body_modified_irrelevant:
  "loop_body filePath startDate startIndex (st\<lparr>modified := b\<rparr>) =
   loop_body filePath startDate startIndex st"
  by (simp add: loop_body_def)

text \<open>
  A state whose iteration ends where it began: the marker is found at the cursor and the
  body hands the same state back.
\<close>

lemma scan_loop_fixed_state:
  assumes found: "str_find (content st) startMarker (searchPos st) = Some (searchPos st)"
    and same: "loop_body filePath startDate startIndex st = Some st"
  shows "scan_loop filePath startDate startIndex st = None"
proof (rule ccontr)
  assume "scan_loop filePath startDate startIndex st \<noteq> None"
  then obtain y where y: "scan_loop filePath startDate startIndex st = Some y"
    by blast
  have "(filePath, startDate, startIndex, st) \<noteq> (filePath, startDate, startIndex, st)"
  proof (rule scan_loop.raw_induct
      [where P = "\<lambda>fp sd si s r. (fp, sd, si, s) \<noteq> (filePath, startDate, startIndex, st)",
       OF _ y])
    fix loop fp sd si s r
    assume IH: "\<And>fp sd si s r. loop fp sd si s = Some r
                  \<Longrightarrow> (fp, sd, si, s) \<noteq> (filePath, startDate, startIndex, st)"
      and step: "(case str_find (content s) startMarker (searchPos s) of
                    None \<Rightarrow> Some s
                  | Some p \<Rightarrow>
                      (case loop_body fp sd si (s\<lparr>searchPos := p\<rparr>) of
                         None \<Rightarrow> None
                       | Some st' \<Rightarrow> loop fp sd si st')) = Some r"
    show "(fp, sd, si, s) \<noteq> (filePath, startDate, startIndex, st)"
    proof
      assume "(fp, sd, si, s) = (filePath, startDate, startIndex, st)"
      with found same step have "loop filePath startDate startIndex st = Some r"
        by simp
      from IH [OF this] show False by simp
    qed
  qed
  then show False by simp
qed

lemma scan_loop_stuck:
  assumes found: "str_find (content st) startMarker (searchPos st) = Some p"
    and body: "loop_body filePath startDate startIndex (st\<lparr>searchPos := p\<rparr>)
                 = Some (st\<lparr>searchPos := p, modified := True\<rparr>)"
  shows "scan_loop filePath startDate startIndex st = None"
proof -
  let ?st1 = "st\<lparr>searchPos := p, modified := True\<rparr>"
  have "scan_loop filePath startDate startIndex st = scan_loop filePath startDate startIndex ?st1"
    using found body by (rule scan_loop_step)
  moreover have "scan_loop filePath startDate startIndex ?st1 = None"
  proof (rule scan_loop_fixed_state)
    show "str_find (content ?st1) startMarker (searchPos ?st1) = Some (searchPos ?st1)"
      using str_find_again [OF found] by simp
    show "loop_body filePath startDate startIndex ?st1 = Some ?st1"
      using body loop_body_modified_irrelevant [where st = "st\<lparr>searchPos := p\<rparr>" and b = True]
      by simp
  qed
  ultimately show ?thesis by simp
qed

lemma loop_body_no_paren:
  "str_find (content st) '')'' (searchPos st + length startMarker) = None \<Longrightarrow>
   loop_body filePath startDate startIndex st = Some (st\<lparr>modified := True\<rparr>)"
  by (simp add: loop_body_def)

lemma loop_body_no_gt:
  "str_find (content st) '')'' (searchPos st + length startMarker) = Some c \<Longrightarrow>
   str_find (content st) ''>'' c = None \<Longrightarrow>
   loop_body filePath startDate startIndex st = Some (st\<lparr>modified := True\<rparr>)"
  by (simp add: loop_body_def)

lemma loop_body_no_lt:
  "str_find (content st) '')'' (searchPos st + length startMarker) = Some c \<Longrightarrow>
   str_find (content st) ''>'' c = Some g \<Longrightarrow>
   str_find (content st) ''<'' (g + 1) = None \<Longrightarrow>
   loop_body filePath startDate startIndex st = Some (st\<lparr>modified := True\<rparr>)"
  by (simp add: loop_body_def)

lemma day_number_no_comma:
  "CHR '','' \<notin> set argsStr \<Longrightarrow> day_number argsStr startIndex = Some startIndex"
  by (simp add: day_number_def str_rfind_None_iff [THEN iffD2])

lemma format_part_no_comma:
  "CHR '','' \<notin> set argsStr \<Longrightarrow> format_part argsStr = argsStr"
  by (simp add: format_part_def str_rfind_None_iff [THEN iffD2])

lemma debug_lines_no_comma:
  "CHR '','' \<notin> set argsStr \<Longrightarrow> debug_lines filePath argsStr = []"
  by (simp add: debug_lines_def str_rfind_None_iff [THEN iffD2])

lemma addDays_0:
  "INT_MIN \<le> tm_mday d \<Longrightarrow> tm_mday d \<le> INT_MAX \<Longrightarrow> addDays d 0 = mktime d"
  by (simp add: addDays_def wrap_int_id INT_MIN_def INT_MAX_def)

lemma day_number_bad:
  "str_rfind argsStr (CHR '','') = Some k \<Longrightarrow> stoi (drop (k + 1) argsStr) = Inl err \<Longrightarrow>
   day_number argsStr startIndex = None"
  by (simp add: day_number_def)

lemma debug_lines_comma:
  "str_rfind argsStr (CHR '','') = Some k \<Longrightarrow>
   debug_lines filePath argsStr = [DebugParse filePath argsStr (drop (k + 1) argsStr)]"
  by (simp add: debug_lines_def)

lemma isdigit_not_space: "isdigit c \<Longrightarrow> \<not> isspace c"
  by (auto simp: isdigit_def isspace_def)

lemma isdigit_not_sign: "isdigit c \<Longrightarrow> c \<noteq> CHR ''-'' \<and> c \<noteq> CHR ''+''"
  by (auto simp: isdigit_def)

lemma stoi_leading_integer:
  assumes ws: "list_all isspace ws"
    and sg: "sg = [] \<or> sg = ''+'' \<or> sg = ''-''"
    and ds: "ds \<noteq> []" "list_all isdigit ds"
    and rest: "takeWhile isdigit rest = []"
  shows "stoi (ws @ sg @ ds @ rest) =
     (let v = (if sg = ''-'' then - digits_val ds else digits_val ds)
      in if v < INT_MIN \<or> INT_MAX < v then Inl OutOfRange else Inr v)"
proof -
  from ds obtain d ds' where d: "ds = d # ds'" "isdigit d"
    by (cases ds) auto
  have hd_ns: "\<not> isspace (hd (sg @ ds @ rest))"
    using sg d isdigit_not_space [of d] by (auto simp: isspace_def)
  have ne: "sg @ ds @ rest \<noteq> []" using ds by simp
  have "dropWhile isspace (ws @ sg @ ds @ rest) = dropWhile isspace (sg @ ds @ rest)"
    using ws by (intro dropWhile_append2) (simp add: list_all_iff)
  also have "\<dots> = sg @ ds @ rest"
    using hd_ns ne by (cases "sg @ ds @ rest") auto
  finally have s1: "dropWhile isspace (ws @ sg @ ds @ rest) = sg @ ds @ rest" .
  have tw: "takeWhile isdigit (ds @ rest) = ds"
    using ds(2) rest by (simp add: takeWhile_append2 list_all_iff)
  have neg: "(case sg @ ds @ rest of c # _ \<Rightarrow> c = CHR ''-'' | [] \<Rightarrow> False) = (sg = ''-'')"
    using sg d isdigit_not_sign [of d] by auto
  have s2: "(case sg @ ds @ rest of
               c # r \<Rightarrow> if c = CHR ''-'' \<or> c = CHR ''+'' then r else sg @ ds @ rest
             | [] \<Rightarrow> sg @ ds @ rest) = ds @ rest"
    using sg d isdigit_not_sign [of d] by auto
  show ?thesis
    unfolding stoi_def Let_def s1 neg s2 tw using ds(1) by simp
qed

lemma writes_append: "writes (xs @ ys) = writes xs @ writes ys"
  by (induction xs rule: writes.induct) simp_all

lemma debug_lines_writes: "writes (debug_lines filePath argsStr) = []"
  by (simp add: debug_lines_def split: option.splits)

lemma loop_body_sets_modified:
  assumes "loop_body filePath startDate startIndex st = Some st'"
  shows "modified st' \<and> writes (printed st') = writes (printed st)"
  using assms
  by (auto simp: loop_body_def apply_directive_def Let_def writes_append
      split: option.splits sum.splits)

lemma scan_loop_modified:
  assumes "scan_loop filePath startDate startIndex st = Some st'"
  shows "(modified st' \<longleftrightarrow>
            modified st \<or> str_find (content st) startMarker (searchPos st) \<noteq> None)
         \<and> writes (printed st') = writes (printed st)"
proof (rule scan_loop.raw_induct
    [where P = "\<lambda>fp sd si s r.
        (modified r \<longleftrightarrow> modified s \<or> str_find (content s) startMarker (searchPos s) \<noteq> None)
        \<and> writes (printed r) = writes (printed s)",
     OF _ assms])
  fix loop fp sd si s r
  assume IH: "\<And>fp sd si s r. loop fp sd si s = Some r \<Longrightarrow>
        (modified r \<longleftrightarrow> modified s \<or> str_find (content s) startMarker (searchPos s) \<noteq> None)
        \<and> writes (printed r) = writes (printed s)"
    and step: "(case str_find (content s) startMarker (searchPos s) of
                  None \<Rightarrow> Some s
                | Some p \<Rightarrow>
                    (case loop_body fp sd si (s\<lparr>searchPos := p\<rparr>) of
                       None \<Rightarrow> None
                     | Some st' \<Rightarrow> loop fp sd si st')) = Some r"
  show "(modified r \<longleftrightarrow> modified s \<or> str_find (content s) startMarker (searchPos s) \<noteq> None)
        \<and> writes (printed r) = writes (printed s)"
  proof (cases "str_find (content s) startMarker (searchPos s)")
    case None
    with step show ?thesis by simp
  next
    case (Some p)
    with step obtain s1 where s1: "loop_body fp sd si (s\<lparr>searchPos := p\<rparr>) = Some s1"
      and r: "loop fp sd si s1 = Some r"
      by (auto split: option.splits)
    from loop_body_sets_modified [OF s1] IH [OF r] Some show ?thesis
      by simp
  qed
qed

lemma scan_modified_iff:
  assumes "scan filePath startDate startIndex text = Some st"
  shows "modified st \<longleftrightarrow> sublist startMarker text"
  using scan_loop_modified [OF assms [unfolded scan_def]]
  by (simp add: str_find_0_None_iff)

lemma scan_writes:
  assumes "scan filePath startDate startIndex text = Some st"
  shows "writes (printed st) = []"
  using scan_loop_modified [OF assms [unfolded scan_def]] by simp

lemma scan_no_marker:
  assumes "\<not> sublist startMarker text"
  shows "scan filePath startDate startIndex text
           = Some \<lparr>content = text, searchPos = 0, modified = False, printed = []\<rparr>"
  unfolding scan_def using assms
  by (intro scan_loop_exit) (simp add: str_find_0_None_iff)

text \<open>
  A buffer whose marker occurrences are all skipped with the warning: the scan ends and
  gives the buffer back as it was.
\<close>

lemma all_skipped_at:
  assumes "all_skipped text startIndex" and "str_find text startMarker q = Some p"
  shows "skipped_at text startIndex p"
proof -
  have "p + length startMarker \<le> length text"
    using str_find_bounds [OF assms(2)] by simp
  then have "p < length text" by (simp add: startMarker_def)
  moreover have "prefix startMarker (drop p text)"
    using assms(2) by (rule str_find_prefix)
  ultimately show ?thesis
    using assms(1) by (auto simp: all_skipped_def list_all_iff)
qed

lemma scan_loop_all_skipped:
  assumes "all_skipped (content st) startIndex"
  shows "\<exists>st'. scan_loop filePath startDate startIndex st = Some st' \<and> content st' = content st"
  using assms
proof (induction "length (content st) - searchPos st" arbitrary: st rule: less_induct)
  case less
  show ?case
  proof (cases "str_find (content st) startMarker (searchPos st)")
    case None
    then show ?thesis by (simp add: scan_loop_exit)
  next
    case (Some p)
    let ?s = "st\<lparr>searchPos := p\<rparr>"
    let ?args = "\<lambda>c. substr (content st) (p + length startMarker) (c - (p + length startMarker))"
    from all_skipped_at [OF less.prems Some]
    obtain c g e where close: "str_find (content st) '')'' (p + length startMarker) = Some c"
      and gt: "str_find (content st) ''>'' c = Some g"
      and lt: "str_find (content st) ''<'' (g + 1) = Some e"
      and day: "day_number (?args c) startIndex = None"
      by (auto simp: skipped_at_def split: option.splits)
    let ?st1 = "st\<lparr>modified := True,
                   printed := printed st @ debug_lines filePath (?args c) @ [WarnInvalidDay filePath],
                   searchPos := c\<rparr>"
    have body: "loop_body filePath startDate startIndex ?s = Some ?st1"
      using close gt lt
      by (subst loop_body_parsed [where c = c and g = g and e = e]) (simp_all add: day)
    have sp: "searchPos st \<le> p" using str_find_bounds [OF Some] by simp
    have "p + length startMarker \<le> c \<and> c + 1 \<le> length (content st)"
      using str_find_bounds [OF close] by simp
    then have "p < c" and "c < length (content st)"
      by (simp_all add: startMarker_def)
    with sp have "length (content st) - c < length (content st) - searchPos st"
      by linarith
    then have "length (content ?st1) - searchPos ?st1 < length (content st) - searchPos st"
      by simp
    moreover have "all_skipped (content ?st1) startIndex"
      using less.prems by simp
    ultimately obtain st' where "scan_loop filePath startDate startIndex ?st1 = Some st'"
      and "content st' = content ?st1"
      using less.hyps by blast
    then show ?thesis
      using scan_loop_step [OF Some body] by simp
  qed
qed

lemma processFile_result:
  assumes "processFile fs filePath extension startDate startIndex = Some (fs', out)"
  shows "if extension \<in> set validExtensions
         then (case can_open fs filePath of
                 None \<Rightarrow> fs' = fs \<and> writes out = []
               | Some f \<Rightarrow>
                   \<exists>st. scan filePath startDate startIndex (bytes f) = Some st
                     \<and> (if can_write f \<and> sublist startMarker (bytes f)
                         then fs' = fs(filePath \<mapsto> f\<lparr>bytes := content st\<rparr>)
                              \<and> writes out = [(filePath, content st)]
                         else fs' = fs \<and> writes out = []))
         else fs' = fs \<and> writes out = []"
proof (cases "extension \<in> set validExtensions")
  case False
  with assms show ?thesis by (auto simp: processFile_def)
next
  case ext: True
  show ?thesis
  proof (cases "can_open fs filePath")
    case None
    with assms ext show ?thesis by (auto simp: processFile_def)
  next
    case (Some f)
    with assms ext obtain st where st: "scan filePath startDate startIndex (bytes f) = Some st"
      by (auto simp: processFile_def split: option.splits)
    note m = scan_modified_iff [OF st] and w = scan_writes [OF st]
    from assms ext Some st m w show ?thesis
      by (auto simp: processFile_def writes_append split: if_splits)
  qed
qed

lemma processFile_all_skipped:
  assumes ext: "extension \<in> set validExtensions"
    and opened: "can_open fs filePath = Some f"
    and writable: "can_write f"
    and marker: "sublist startMarker (bytes f)"
    and skipped: "all_skipped (bytes f) startIndex"
  shows "\<exists>out. processFile fs filePath extension startDate startIndex = Some (fs, out)
           \<and> writes out = [(filePath, bytes f)]"
proof -
  obtain st where st: "scan filePath startDate startIndex (bytes f) = Some st"
    and c: "content st = bytes f"
    using scan_loop_all_skipped [where st = "\<lparr>content = bytes f, searchPos = 0, modified = False,
        printed = []\<rparr>" and startIndex = startIndex and filePath = filePath and startDate = startDate]
      skipped
    by (auto simp: scan_def)
  have m: "modified st" using scan_modified_iff [OF st] marker by simp
  have w: "writes (printed st) = []" using st by (rule scan_writes)
  have "fs filePath = Some f"
    using opened by (auto simp: can_open_def split: option.splits if_splits)
  then have "fs(filePath \<mapsto> f) = fs" by (rule map_upd_triv)
  then show ?thesis
    using ext opened writable st c m w
    by (simp add: processFile_def writes_append)
qed

text \<open>
  An occurrence of the marker that is malformed (no \<open>)\<close> after it, or no \<open>>\<close> after
  that, or no \<open><\<close> after that) stops the scan for good: each of the three \<open>continue\<close>
  statements goes back to the loop condition with the cursor on the marker.
\<close>

lemma scan_loop_malformed:
  assumes found: "str_find (content st) startMarker (searchPos st) = Some p"
    and malformed:
      "str_find (content st) '')'' (p + length startMarker) = None
       \<or> (\<exists>c. str_find (content st) '')'' (p + length startMarker) = Some c
              \<and> (str_find (content st) ''>'' c = None
                  \<or> (\<exists>g. str_find (content st) ''>'' c = Some g
                         \<and> str_find (content st) ''<'' (g + 1) = None)))"
  shows "scan_loop filePath startDate startIndex st = None"
proof -
  have "loop_body filePath startDate startIndex (st\<lparr>searchPos := p\<rparr>)
          = Some (st\<lparr>searchPos := p, modified := True\<rparr>)"
    using malformed
    by (auto simp: loop_body_no_paren loop_body_no_gt loop_body_no_lt)
  with found show ?thesis by (rule scan_loop_stuck)
qed

section \<open>The claims\<close>

text \<open>
  C1. Claimed: the directive-scanning loop ends on every buffer, because a malformed
  occurrence of the marker is skipped with the cursor moved past it. The code does not move
  the cursor on the three \<open>continue\<close> paths of a malformed occurrence: on the buffer
  \<open>DateReplace(\<close>, which has no closing parenthesis, the next search finds the same
  occurrence again and the loop never ends, whatever the date and the start index, so that
  \<open>processFile\<close> does not return for a file with this content.
\<close>

theorem scan_diverges_unclosed_marker:
  "scan filePath startDate startIndex ''DateReplace('' = None
   \<and> processFile [''a.html'' \<mapsto> \<lparr>bytes = ''DateReplace('', can_read = True, can_write = True\<rparr>]
         ''a.html'' ''.html'' startDate startIndex = None"
proof -
  have found: "str_find ''DateReplace('' startMarker 0 = Some 0"
    by code_simp
  have no_paren: "str_find ''DateReplace('' '')'' (length startMarker) = None"
    by code_simp
  have "scan fp startDate startIndex ''DateReplace('' = None" for fp
    unfolding scan_def
    by (rule scan_loop_malformed [where p = 0]) (simp_all add: found no_paren)
  then show ?thesis
    by (simp add: processFile_def can_open_def validExtensions_def)
qed

text \<open>
  C2. Claimed: for every date and template, no later single-letter pass rewrites characters
  of a value that an earlier pass inserted, and \<open>YYYY-MM-DD\<close> never shows such
  corruption. The passes run over the whole string, inserted values included: for 15 March
  2024 the pass for \<open>MM\<close> inserts \<open>March\<close> and the later pass for \<open>M\<close> replaces its
  capital \<open>M\<close> by \<open>Mar\<close>.
\<close>

theorem formatDate_corrupts_month_name:
  "formatDate \<lparr>tm_mday = 15, tm_mon = 2, tm_year = 124, tm_wday = 5, tm_yday = 74\<rparr> ''YYYY-MM-DD''
     = Some ''2024-Mararch-15''"
  by code_simp

text \<open>
  C3. Claimed: a file is written back only if at least one directive was applied, so that a
  buffer whose marker occurrences were all skipped is not rewritten. The flag
  \<open>modified\<close> is set at the top of the loop body, as soon as a marker is found: a file
  whose only directive has an unparsable day number is written back, with the content it had.
\<close>

theorem skipped_directive_file_rewritten:
  "processFile
     [''a.html'' \<mapsto> \<lparr>bytes = ''<p id=DateReplace(D, abc)>old</p>'', can_read = True,
                       can_write = True\<rparr>]
     ''a.html'' ''.html'' \<lparr>tm_mday = 26, tm_mon = 7, tm_year = 124, tm_wday = 1, tm_yday = 238\<rparr> 0
   = Some ([''a.html'' \<mapsto> \<lparr>bytes = ''<p id=DateReplace(D, abc)>old</p>'', can_read = True,
                              can_write = True\<rparr>],
           [DebugParse ''a.html'' ''D, abc'' '' abc'', WarnInvalidDay ''a.html'',
            FileWritten ''a.html'' ''<p id=DateReplace(D, abc)>old</p>''])"
proof -
  let ?d = "\<lparr>tm_mday = 26, tm_mon = 7, tm_year = 124, tm_wday = 1, tm_yday = 238\<rparr>"
  have "scan ''a.html'' ?d 0 ''<p id=DateReplace(D, abc)>old</p>''
      = Some \<lparr>content = ''<p id=DateReplace(D, abc)>old</p>'', searchPos = 24, modified = True,
               printed = [DebugParse ''a.html'' ''D, abc'' '' abc'', WarnInvalidDay ''a.html'']\<rparr>"
    by code_simp
  then show ?thesis
    by (simp add: processFile_def can_open_def validExtensions_def)
qed

text \<open>
  C3, amended: when \<open>processFile\<close> returns, the file has been written exactly when its
  extension is one of the four allowed, it could be opened for reading and for writing, and
  the buffer read from it holds at least one occurrence of the marker \<open>DateReplace(\<close>,
  whether or not a directive was applied; what is written, and what the file then holds, is
  the buffer that the scan returns, and in every other case the file system is left as it
  was. In particular a file whose marker occurrences are all skipped for an unparsable day
  number is processed to the end and written back with the content it had.
\<close>

theorem file_written_iff_marker_seen:
  "(processFile fs filePath extension startDate startIndex = Some (fs', out) \<longrightarrow>
      (writes out \<noteq> [] \<longleftrightarrow>
         extension \<in> set validExtensions
         \<and> (\<exists>f. can_open fs filePath = Some f \<and> can_write f \<and> sublist startMarker (bytes f)))
      \<and> (if extension \<in> set validExtensions
          then (case can_open fs filePath of
                  None \<Rightarrow> fs' = fs \<and> writes out = []
                | Some f \<Rightarrow>
                    \<exists>st. scan filePath startDate startIndex (bytes f) = Some st
                      \<and> (if can_write f \<and> sublist startMarker (bytes f)
                          then fs' = fs(filePath \<mapsto> f\<lparr>bytes := content st\<rparr>)
                               \<and> writes out = [(filePath, content st)]
                          else fs' = fs \<and> writes out = []))
          else fs' = fs \<and> writes out = []))
   \<and> (extension \<in> set validExtensions \<and> can_open fs filePath = Some g \<and> can_write g
        \<and> sublist startMarker (bytes g) \<and> all_skipped (bytes g) startIndex \<longrightarrow>
      (\<exists>out'. processFile fs filePath extension startDate startIndex = Some (fs, out')
          \<and> writes out' = [(filePath, bytes g)]))"
proof (intro conjI impI)
  assume ret: "processFile fs filePath extension startDate startIndex = Some (fs', out)"
  note r = processFile_result [OF ret]
  show "if extension \<in> set validExtensions
          then (case can_open fs filePath of
                  None \<Rightarrow> fs' = fs \<and> writes out = []
                | Some f \<Rightarrow>
                    \<exists>st. scan filePath startDate startIndex (bytes f) = Some st
                      \<and> (if can_write f \<and> sublist startMarker (bytes f)
                          then fs' = fs(filePath \<mapsto> f\<lparr>bytes := content st\<rparr>)
                               \<and> writes out = [(filePath, content st)]
                          else fs' = fs \<and> writes out = []))
          else fs' = fs \<and> writes out = []"
    by (rule r)
  show "writes out \<noteq> [] \<longleftrightarrow>
         extension \<in> set validExtensions
         \<and> (\<exists>f. can_open fs filePath = Some f \<and> can_write f \<and> sublist startMarker (bytes f))"
    using r by (auto split: if_splits option.splits)
next
  assume "extension \<in> set validExtensions \<and> can_open fs filePath = Some g \<and> can_write g
        \<and> sublist startMarker (bytes g) \<and> all_skipped (bytes g) startIndex"
  then show "\<exists>out'. processFile fs filePath extension startDate startIndex = Some (fs, out')
          \<and> writes out' = [(filePath, bytes g)]"
    by (intro processFile_all_skipped) simp_all
qed

text \<open>
  A file with one well-formed directive is written with the replaced text, and it holds the
  marker; a file with two directives, both with an unparsable day number, is written back
  unchanged.
\<close>

theorem file_written_iff_marker_seen_witness:
  "processFile
     [''a.html'' \<mapsto> \<lparr>bytes = ''<p id=DateReplace(D, 3)>x</p>'', can_read = True, can_write = True\<rparr>]
     ''a.html'' ''.html'' \<lparr>tm_mday = 26, tm_mon = 7, tm_year = 124, tm_wday = 1, tm_yday = 238\<rparr> 0
   = Some ([''a.html'' \<mapsto> \<lparr>bytes = ''<p id=DateReplace(D, 3)>29</p>'', can_read = True,
                              can_write = True\<rparr>],
           [DebugParse ''a.html'' ''D, 3'' '' 3'',
            FileWritten ''a.html'' ''<p id=DateReplace(D, 3)>29</p>''])
   \<and> sublist startMarker ''<p id=DateReplace(D, 3)>x</p>''
   \<and> all_skipped ''<p id=DateReplace(D, abc)>old</p><b DateReplace(M, x)>y</b>'' 0
   \<and> sublist startMarker ''<p id=DateReplace(D, abc)>old</p><b DateReplace(M, x)>y</b>''
   \<and> (\<exists>out'. processFile
          [''a.html'' \<mapsto> \<lparr>bytes = ''<p id=DateReplace(D, abc)>old</p><b DateReplace(M, x)>y</b>'',
                            can_read = True, can_write = True\<rparr>]
          ''a.html'' ''.html'' \<lparr>tm_mday = 26, tm_mon = 7, tm_year = 124, tm_wday = 1, tm_yday = 238\<rparr> 0
        = Some ([''a.html'' \<mapsto> \<lparr>bytes = ''<p id=DateReplace(D, abc)>old</p><b DateReplace(M, x)>y</b>'',
                            can_read = True, can_write = True\<rparr>], out')
        \<and> writes out' = [(''a.html'', ''<p id=DateReplace(D, abc)>old</p><b DateReplace(M, x)>y</b>'')])"
proof -
  let ?f = "\<lparr>bytes = ''<p id=DateReplace(D, 3)>x</p>'', can_read = True, can_write = True\<rparr>"
  let ?d = "\<lparr>tm_mday = 26, tm_mon = 7, tm_year = 124, tm_wday = 1, tm_yday = 238\<rparr>"
  let ?out = "[DebugParse ''a.html'' ''D, 3'' '' 3'',
            FileWritten ''a.html'' ''<p id=DateReplace(D, 3)>29</p>'']"
  let ?fs' = "[''a.html'' \<mapsto> \<lparr>bytes = ''<p id=DateReplace(D, 3)>29</p>'', can_read = True,
                              can_write = True\<rparr>]"
  let ?t = "''<p id=DateReplace(D, abc)>old</p><b DateReplace(M, x)>y</b>''"
  let ?g = "\<lparr>bytes = ?t, can_read = True, can_write = True\<rparr>"
  have "scan ''a.html'' ?d 0 ''<p id=DateReplace(D, 3)>x</p>''
      = Some \<lparr>content = ''<p id=DateReplace(D, 3)>29</p>'', searchPos = 26, modified = True,
               printed = [DebugParse ''a.html'' ''D, 3'' '' 3'']\<rparr>"
    by code_simp
  then have p: "processFile [''a.html'' \<mapsto> ?f] ''a.html'' ''.html'' ?d 0 = Some (?fs', ?out)"
    by (simp add: processFile_def can_open_def validExtensions_def)
  have wne: "writes ?out \<noteq> []" by simp
  note iff = file_written_iff_marker_seen
    [where fs = "[''a.html'' \<mapsto> ?f]" and filePath = "''a.html''" and extension = "''.html''"
       and startDate = ?d and startIndex = 0 and fs' = ?fs' and out = ?out,
     THEN conjunct1, THEN mp, OF p, THEN conjunct1]
  from iffD1 [OF iff wne]
  have "\<exists>f. can_open [''a.html'' \<mapsto> ?f] ''a.html'' = Some f \<and> can_write f
          \<and> sublist startMarker (bytes f)"
    by (rule conjunct2)
  then have "sublist startMarker (bytes ?f)"
    by (auto simp: can_open_def)
  then have m1: "sublist startMarker ''<p id=DateReplace(D, 3)>x</p>''"
    by simp
  have sk: "all_skipped ?t 0"
    by code_simp
  have fm: "first_match startMarker ?t \<noteq> None"
    by code_simp
  have m2: "sublist startMarker ?t"
  proof (rule ccontr)
    assume "\<not> sublist startMarker ?t"
    then have "first_match startMarker ?t = None"
      by (rule first_match_None_iff [THEN iffD2])
    with fm show False by (rule notE)
  qed
  have ext: "''.html'' \<in> set validExtensions"
    by (simp add: validExtensions_def)
  have opened: "can_open [''a.html'' \<mapsto> ?g] ''a.html'' = Some ?g"
    by (simp add: can_open_def)
  have hyp: "''.html'' \<in> set validExtensions \<and> can_open [''a.html'' \<mapsto> ?g] ''a.html'' = Some ?g
      \<and> can_write ?g \<and> sublist startMarker (bytes ?g) \<and> all_skipped (bytes ?g) 0"
    using ext opened m2 sk by simp
  from file_written_iff_marker_seen
    [where fs = "[''a.html'' \<mapsto> ?g]" and filePath = "''a.html''" and extension = "''.html''"
       and startDate = ?d and startIndex = 0 and g = ?g, THEN conjunct2, THEN mp, OF hyp]
  have "\<exists>out'. processFile [''a.html'' \<mapsto> ?g] ''a.html'' ''.html'' ?d 0
            = Some ([''a.html'' \<mapsto> ?g], out')
          \<and> writes out' = [(''a.html'', bytes ?g)]" .
  then have w2: "\<exists>out'. processFile [''a.html'' \<mapsto> ?g] ''a.html'' ''.html'' ?d 0
            = Some ([''a.html'' \<mapsto> ?g], out')
          \<and> writes out' = [(''a.html'', ?t)]"
    by simp
  from p m1 sk m2 w2 show ?thesis
    by (intro conjI)
qed

text \<open>
  C4. Claimed: for every normalized base date and every integer offset, \<open>addDays\<close> with
  the offset and then with the negated offset returns the base date. The sum
  \<open>baseDate.tm_mday += days\<close> is an \<open>int\<close>: from 01/15/2024 the offset 2147483647
  wraps the day of the month to a negative value, the date moves millions of years back
  instead of forward, and the negated offset moves it back further still.
\<close>

theorem addDays_overflow_breaks_roundtrip:
  "mktime \<lparr>tm_mday = 15, tm_mon = 0, tm_year = 124, tm_wday = 1, tm_yday = 14\<rparr>
     = \<lparr>tm_mday = 15, tm_mon = 0, tm_year = 124, tm_wday = 1, tm_yday = 14\<rparr>
   \<and> addDays (addDays \<lparr>tm_mday = 15, tm_mon = 0, tm_year = 124, tm_wday = 1, tm_yday = 14\<rparr>
                 2147483647) (wrap_int (- 2147483647))
     \<noteq> \<lparr>tm_mday = 15, tm_mon = 0, tm_year = 124, tm_wday = 1, tm_yday = 14\<rparr>"
proof -
  let ?base = "\<lparr>tm_mday = 15, tm_mon = 0, tm_year = 124, tm_wday = 1, tm_yday = 14\<rparr>"
  let ?r1 = "addDays ?base 2147483647"
  let ?r2 = "addDays ?r1 (wrap_int (- 2147483647))"
  have n: "mktime ?base = ?base"
    by code_simp
  have r1: "?r1 = mktime (?base\<lparr>tm_mday := - 2147483634\<rparr>)"
    by (simp add: addDays_def wrap_int_def)
  have k1: "tm_year ?r1 * 12 + tm_mon ?r1 < 1488"
    unfolding r1 mktime_month_index using roll_days_less [of "- 2147483634" 1488] by simp
  have d1: "1 \<le> tm_mday ?r1 \<and> tm_mday ?r1 \<le> 31"
    unfolding addDays_def by (rule mktime_mday_bounds)
  have w: "wrap_int (- 2147483647) = - 2147483647"
    by (simp add: wrap_int_def)
  have w2: "wrap_int (tm_mday ?r1 + - 2147483647) = tm_mday ?r1 + - 2147483647"
    using d1 by (intro wrap_int_id) simp_all
  have r2: "?r2 = mktime (?r1\<lparr>tm_mday := tm_mday ?r1 + - 2147483647\<rparr>)"
    unfolding w by (simp only: addDays_def [of ?r1] w2)
  have "tm_year ?r2 * 12 + tm_mon ?r2 < tm_year ?r1 * 12 + tm_mon ?r1"
    unfolding r2 mktime_month_index using d1
    by (simp add: roll_days_less)
  with k1 have "tm_year ?r2 * 12 + tm_mon ?r2 < 1488"
    by linarith
  then have "?r2 \<noteq> ?base"
    by auto
  with n show ?thesis by simp
qed

text \<open>
  C4, amended: for every normalized base date (one that \<open>mktime\<close> leaves as it is) and
  every offset between -2147483616 and 2147483616, for which neither addition to the day of
  the month leaves the range of \<open>int\<close>, \<open>addDays\<close> with the offset and then with the
  negated offset returns the base date, weekday and day of the year included.
\<close>

theorem addDays_roundtrip:
  assumes "mktime base = base" and "- 2147483616 \<le> k" and "k \<le> 2147483616"
  shows "addDays (addDays base k) (wrap_int (- k)) = base"
proof -
  have b: "1 \<le> tm_mday base \<and> tm_mday base \<le> 31"
    using mktime_mday_bounds [of base] assms(1) by simp
  then have w1: "wrap_int (tm_mday base + k) = tm_mday base + k"
    using assms(2,3) by (intro wrap_int_id) simp_all
  have w0: "wrap_int (- k) = - k"
    using assms(2,3) by (intro wrap_int_id) simp_all
  let ?r = "mktime (base\<lparr>tm_mday := tm_mday base + k\<rparr>)"
  have r: "addDays base k = ?r" by (simp add: addDays_def w1)
  have "1 \<le> tm_mday ?r \<and> tm_mday ?r \<le> 31" by (rule mktime_mday_bounds)
  then have w2: "wrap_int (tm_mday ?r + - k) = tm_mday ?r + - k"
    using assms(2,3) by (intro wrap_int_id) simp_all
  have "addDays ?r (- k) = mktime (?r\<lparr>tm_mday := tm_mday ?r + - k\<rparr>)"
    by (simp only: addDays_def w2)
  also have "\<dots> = mktime ((base\<lparr>tm_mday := tm_mday base + k\<rparr>)
                \<lparr>tm_mday := tm_mday (base\<lparr>tm_mday := tm_mday base + k\<rparr>) + - k\<rparr>)"
    by (rule mktime_add)
  also have "\<dots> = mktime base" by simp
  finally show ?thesis using assms(1) r w0 by simp
qed

text \<open>From 01/15/2024, 400 days back is Sunday 12/11/2022, and 400 days on from there.\<close>

theorem addDays_roundtrip_witness:
  "mktime \<lparr>tm_mday = 15, tm_mon = 0, tm_year = 124, tm_wday = 1, tm_yday = 14\<rparr>
     = \<lparr>tm_mday = 15, tm_mon = 0, tm_year = 124, tm_wday = 1, tm_yday = 14\<rparr>
   \<and> addDays \<lparr>tm_mday = 15, tm_mon = 0, tm_year = 124, tm_wday = 1, tm_yday = 14\<rparr> (- 400)
     = \<lparr>tm_mday = 11, tm_mon = 11, tm_year = 122, tm_wday = 0, tm_yday = 344\<rparr>
   \<and> addDays \<lparr>tm_mday = 11, tm_mon = 11, tm_year = 122, tm_wday = 0, tm_yday = 344\<rparr>
         (wrap_int (- (- 400)))
     = \<lparr>tm_mday = 15, tm_mon = 0, tm_year = 124, tm_wday = 1, tm_yday = 14\<rparr>"
proof -
  let ?base = "\<lparr>tm_mday = 15, tm_mon = 0, tm_year = 124, tm_wday = 1, tm_yday = 14\<rparr>"
  have n: "mktime ?base = ?base"
    by code_simp
  have a: "addDays ?base (- 400)
     = \<lparr>tm_mday = 11, tm_mon = 11, tm_year = 122, tm_wday = 0, tm_yday = 344\<rparr>"
    by code_simp
  have "addDays (addDays ?base (- 400)) (wrap_int (- (- 400))) = ?base"
    using n by (rule addDays_roundtrip) simp_all
  with n a show ?thesis by simp
qed

text \<open>
  C5. A buffer without the marker text \<open>DateReplace(\<close> comes back from the scan
  unchanged and with \<open>modified\<close> false, and \<open>processFile\<close> leaves the file system as it
  is and writes nothing.
\<close>

theorem no_marker_buffer_unchanged:
  assumes node: "fs filePath = Some f"
    and no_marker: "\<not> sublist startMarker (bytes f)"
  shows "scan filePath startDate startIndex (bytes f)
           = Some \<lparr>content = bytes f, searchPos = 0, modified = False, printed = []\<rparr>
    \<and> (\<exists>out. processFile fs filePath extension startDate startIndex = Some (fs, out)
           \<and> writes out = [])"
proof -
  have s: "scan filePath startDate startIndex (bytes f)
           = Some \<lparr>content = bytes f, searchPos = 0, modified = False, printed = []\<rparr>"
    using no_marker by (rule scan_no_marker)
  have "\<exists>out. processFile fs filePath extension startDate startIndex = Some (fs, out)
           \<and> writes out = []"
    using node s by (simp add: processFile_def can_open_def)
  with s show ?thesis by simp
qed

text \<open>A page without directives.\<close>

theorem no_marker_buffer_unchanged_witness:
  "\<not> sublist startMarker ''<p>Week 1</p>''
   \<and> scan ''a.html'' \<lparr>tm_mday = 26, tm_mon = 7, tm_year = 124, tm_wday = 1, tm_yday = 238\<rparr> 0
         ''<p>Week 1</p>''
       = Some \<lparr>content = ''<p>Week 1</p>'', searchPos = 0, modified = False, printed = []\<rparr>
   \<and> processFile [''a.html'' \<mapsto> \<lparr>bytes = ''<p>Week 1</p>'', can_read = True, can_write = True\<rparr>]
         ''a.html'' ''.html''
         \<lparr>tm_mday = 26, tm_mon = 7, tm_year = 124, tm_wday = 1, tm_yday = 238\<rparr> 0
       = Some ([''a.html'' \<mapsto> \<lparr>bytes = ''<p>Week 1</p>'', can_read = True, can_write = True\<rparr>], [])"
proof -
  let ?f = "\<lparr>bytes = ''<p>Week 1</p>'', can_read = True, can_write = True\<rparr>"
  let ?fs = "[''a.html'' \<mapsto> ?f]"
  let ?d = "\<lparr>tm_mday = 26, tm_mon = 7, tm_year = 124, tm_wday = 1, tm_yday = 238\<rparr>"
  have "first_match startMarker ''<p>Week 1</p>'' = None"
    by code_simp
  then have "\<not> sublist startMarker ''<p>Week 1</p>''"
    by (rule first_match_None_iff [THEN iffD1])
  then have no_marker: "\<not> sublist startMarker (bytes ?f)"
    by simp
  have node: "?fs ''a.html'' = Some ?f"
    by simp
  from no_marker_buffer_unchanged
    [where fs = ?fs and filePath = "''a.html''" and f = ?f and startDate = ?d
       and startIndex = 0 and extension = "''.html''", OF node no_marker]
  have s: "scan ''a.html'' ?d 0 ''<p>Week 1</p>''
       = Some \<lparr>content = ''<p>Week 1</p>'', searchPos = 0, modified = False, printed = []\<rparr>"
    by simp
  then have "processFile ?fs ''a.html'' ''.html'' ?d 0 = Some (?fs, [])"
    by (simp add: processFile_def can_open_def validExtensions_def)
  with no_marker s show ?thesis by simp
qed

text \<open>
  C6. With base date 01/15/2024 and start index 1, the argument text
  \<open>MM DD, YYYY, 5\<close> splits at its last comma into the format \<open>MM DD, YYYY\<close> and the
  day number 5; the offset is 5 - 1 = 4; the base date is a Monday (\<open>tm_wday = 1\<close>) and the
  target date is Friday 01/19/2024; the rendered text is \<open>January 19, 2024\<close>, which the
  scan puts into the text node after the directive. The weekday and day of the year stored
  in the base date play no part.
\<close>

theorem example_january_19:
  "format_part ''MM DD, YYYY, 5'' = ''MM DD, YYYY''
   \<and> day_number ''MM DD, YYYY, 5'' 1 = Some 5
   \<and> wrap_int (5 - 1) = 4
   \<and> mktime \<lparr>tm_mday = 15, tm_mon = 0, tm_year = 124, tm_wday = w, tm_yday = yd\<rparr>
       = \<lparr>tm_mday = 15, tm_mon = 0, tm_year = 124, tm_wday = 1, tm_yday = 14\<rparr>
   \<and> addDays \<lparr>tm_mday = 15, tm_mon = 0, tm_year = 124, tm_wday = w, tm_yday = yd\<rparr> 4
       = \<lparr>tm_mday = 19, tm_mon = 0, tm_year = 124, tm_wday = 5, tm_yday = 18\<rparr>
   \<and> formatDate \<lparr>tm_mday = 19, tm_mon = 0, tm_year = 124, tm_wday = 5, tm_yday = 18\<rparr>
         (trim ''MM DD, YYYY'') = Some ''January 19, 2024''
   \<and> scan ''a.html'' \<lparr>tm_mday = 15, tm_mon = 0, tm_year = 124, tm_wday = w, tm_yday = yd\<rparr> 1
         ''<p id=DateReplace(MM DD, YYYY, 5)>old</p>''
       = Some \<lparr>content = ''<p id=DateReplace(MM DD, YYYY, 5)>January 19, 2024</p>'',
            searchPos = 50, modified = True,
            printed = [DebugParse ''a.html'' ''MM DD, YYYY, 5'' '' 5'']\<rparr>"
  by code_simp

text \<open>
  C7. For a directive whose argument text has no comma (and whose closing parenthesis and
  target span exist), the whole argument text is the format and the day number is the start
  index, so the offset is 0 and the date rendered is the normalized base date, whatever the
  start index is.
\<close>

theorem no_comma_resolves_to_base_date:
  assumes close: "str_find (content st) '')'' (searchPos st + length startMarker) = Some c"
    and gt: "str_find (content st) ''>'' c = Some g"
    and lt: "str_find (content st) ''<'' (g + 1) = Some e"
    and args: "argsStr = substr (content st) (searchPos st + length startMarker)
                 (c - (searchPos st + length startMarker))"
    and no_comma: "CHR '','' \<notin> set argsStr"
    and mday: "INT_MIN \<le> tm_mday startDate" "tm_mday startDate \<le> INT_MAX"
  shows "format_part argsStr = argsStr
    \<and> day_number argsStr startIndex = Some startIndex
    \<and> wrap_int (startIndex - startIndex) = 0
    \<and> addDays startDate (wrap_int (startIndex - startIndex)) = mktime startDate
    \<and> loop_body filePath startDate startIndex st =
        (case formatDate (mktime startDate) (trim argsStr) of
           None \<Rightarrow> None
         | Some newDateStr \<Rightarrow>
             Some (st\<lparr>modified := True,
                      content := str_replace (content st) (g + 1) (e - (g + 1)) newDateStr,
                      searchPos := g + 1 + length newDateStr\<rparr>))"
proof -
  have w0: "wrap_int 0 = 0"
    by (simp add: wrap_int_def)
  then have w: "wrap_int (startIndex - startIndex) = 0"
    by simp
  have a0: "addDays startDate (wrap_int 0) = mktime startDate"
    using mday by (simp add: w0 addDays_0)
  then have a: "addDays startDate (wrap_int (startIndex - startIndex)) = mktime startDate"
    by simp
  have "loop_body filePath startDate startIndex st =
      apply_directive startDate startIndex argsStr startIndex (g + 1) e (st\<lparr>modified := True\<rparr>)"
    using no_comma
    by (simp add: loop_body_parsed [OF close gt lt] args [symmetric] day_number_no_comma
        format_part_no_comma debug_lines_no_comma)
  then have "loop_body filePath startDate startIndex st =
        (case formatDate (mktime startDate) (trim argsStr) of
           None \<Rightarrow> None
         | Some newDateStr \<Rightarrow>
             Some (st\<lparr>modified := True,
                      content := str_replace (content st) (g + 1) (e - (g + 1)) newDateStr,
                      searchPos := g + 1 + length newDateStr\<rparr>))"
    by (simp add: apply_directive_def a0 split: option.splits)
  with w a no_comma show ?thesis
    by (simp add: day_number_no_comma format_part_no_comma)
qed

text \<open>
  The example of C7: base date 08/26/2024, start index 0, \<open>DateReplace(Y)\<close> renders
  \<open>2024\<close>.
\<close>

theorem no_comma_resolves_to_base_date_witness:
  "loop_body ''a.html'' \<lparr>tm_mday = 26, tm_mon = 7, tm_year = 124, tm_wday = 1, tm_yday = 238\<rparr> 0
     \<lparr>content = ''<p id=DateReplace(Y)>old</p>'', searchPos = 6, modified = False, printed = []\<rparr>
   = Some \<lparr>content = ''<p id=DateReplace(Y)>2024</p>'', searchPos = 25, modified = True,
            printed = []\<rparr>
   \<and> scan ''a.html'' \<lparr>tm_mday = 26, tm_mon = 7, tm_year = 124, tm_wday = 1, tm_yday = 238\<rparr> 0
       ''<p id=DateReplace(Y)>old</p>''
     = Some \<lparr>content = ''<p id=DateReplace(Y)>2024</p>'', searchPos = 25, modified = True,
            printed = []\<rparr>"
proof -
  let ?st = "\<lparr>content = ''<p id=DateReplace(Y)>old</p>'', searchPos = 6, modified = False,
               printed = []\<rparr>"
  let ?d = "\<lparr>tm_mday = 26, tm_mon = 7, tm_year = 124, tm_wday = 1, tm_yday = 238\<rparr>"
  have close: "str_find (content ?st) '')'' (searchPos ?st + length startMarker) = Some 19"
    by code_simp
  have gt: "str_find (content ?st) ''>'' 19 = Some 20"
    by code_simp
  have lt: "str_find (content ?st) ''<'' (20 + 1) = Some 24"
    by code_simp
  have args: "''Y'' = substr (content ?st) (searchPos ?st + length startMarker)
                 (19 - (searchPos ?st + length startMarker))"
    by code_simp
  have no_comma: "CHR '','' \<notin> set ''Y''"
    by simp
  have mday: "INT_MIN \<le> tm_mday ?d" "tm_mday ?d \<le> INT_MAX"
    by (simp_all add: INT_MIN_def INT_MAX_def)
  have render: "formatDate (mktime ?d) (trim ''Y'') = Some ''2024''"
    by code_simp
  have "loop_body ''a.html'' ?d 0 ?st =
          Some (?st\<lparr>modified := True,
                  content := str_replace (content ?st) (20 + 1) (24 - (20 + 1)) ''2024'',
                  searchPos := 20 + 1 + length ''2024''\<rparr>)"
    using no_comma_resolves_to_base_date [OF close gt lt args no_comma mday, of 0 "''a.html''"]
    by (simp add: render)
  moreover have "scan ''a.html'' ?d 0 ''<p id=DateReplace(Y)>old</p>''
     = Some \<lparr>content = ''<p id=DateReplace(Y)>2024</p>'', searchPos = 25, modified = True,
            printed = []\<rparr>"
    by code_simp
  ultimately show ?thesis
    by (simp add: str_replace_def)
qed

text \<open>
  C8. For a directive (marker, closing parenthesis and target span all found) whose argument
  text has a comma and whose day part \<open>std::stoi\<close> rejects: the iteration prints the
  debugging line and the warning, leaves the buffer as it is and puts the cursor on the
  closing parenthesis, which is beyond the marker and from where the search for the marker
  gives what it gives from one position further; the scan then goes on from that state, so
  that the directives after it are processed as usual.
\<close>

theorem unparsable_day_number_skipped:
  assumes found: "str_find (content st) startMarker (searchPos st) = Some p"
    and close: "str_find (content st) '')'' (p + length startMarker) = Some c"
    and gt: "str_find (content st) ''>'' c = Some g"
    and lt: "str_find (content st) ''<'' (g + 1) = Some e"
    and args: "argsStr = substr (content st) (p + length startMarker)
                 (c - (p + length startMarker))"
    and comma: "str_rfind argsStr (CHR '','') = Some k"
    and bad: "stoi (drop (k + 1) argsStr) = Inl err"
    and skipped: "st' = st\<lparr>modified := True,
                    printed := printed st @ [DebugParse filePath argsStr (drop (k + 1) argsStr),
                                             WarnInvalidDay filePath],
                    searchPos := c\<rparr>"
  shows "loop_body filePath startDate startIndex (st\<lparr>searchPos := p\<rparr>) = Some st'
    \<and> content st' = content st
    \<and> p < searchPos st'
    \<and> str_find (content st') startMarker (searchPos st')
        = str_find (content st') startMarker (searchPos st' + 1)
    \<and> scan_loop filePath startDate startIndex st = scan_loop filePath startDate startIndex st'"
proof -
  let ?s = "st\<lparr>searchPos := p\<rparr>"
  have body: "loop_body filePath startDate startIndex ?s = Some st'"
    using close gt lt
    by (subst loop_body_parsed [where c = c and g = g and e = e])
      (simp_all add: args [symmetric] day_number_bad [OF comma bad] debug_lines_comma [OF comma]
        skipped)
  have "p + length startMarker \<le> c"
    using str_find_bounds [OF close] by simp
  then have adv: "p < c" by (simp add: startMarker_def)
  have paren: "c < length (content st) \<and> content st ! c = CHR '')''"
    using close by (rule str_find_char_at)
  have "str_find (content st) startMarker c = str_find (content st) startMarker (Suc c)"
    using paren by (intro str_find_skip) (simp_all add: startMarker_def)
  moreover have "scan_loop filePath startDate startIndex st
      = scan_loop filePath startDate startIndex st'"
    using found body by (rule scan_loop_step)
  ultimately show ?thesis
    using body adv by (simp add: skipped)
qed

text \<open>
  The example of C8: \<open>DateReplace(D, abc)\<close> is left as it is with a warning, and the
  directive after it is still replaced (08/26/2024 plus 3 days is the 29th).
\<close>

theorem unparsable_day_number_skipped_witness:
  "scan ''a.html'' \<lparr>tm_mday = 26, tm_mon = 7, tm_year = 124, tm_wday = 1, tm_yday = 238\<rparr> 0
     ''<p id=DateReplace(D, abc)>old</p><b DateReplace(D, 3)>x</b>''
   = Some \<lparr>content = ''<p id=DateReplace(D, abc)>old</p><b DateReplace(D, 3)>29</b>'',
            searchPos = 56, modified = True,
            printed = [DebugParse ''a.html'' ''D, abc'' '' abc'', WarnInvalidDay ''a.html'',
                       DebugParse ''a.html'' ''D, 3'' '' 3'']\<rparr>"
proof -
  let ?text = "''<p id=DateReplace(D, abc)>old</p><b DateReplace(D, 3)>x</b>''"
  let ?st = "\<lparr>content = ?text, searchPos = 0, modified = False, printed = []\<rparr>"
  let ?st' = "\<lparr>content = ?text, searchPos = 24, modified = True,
                printed = [DebugParse ''a.html'' ''D, abc'' '' abc'', WarnInvalidDay ''a.html'']\<rparr>"
  let ?d = "\<lparr>tm_mday = 26, tm_mon = 7, tm_year = 124, tm_wday = 1, tm_yday = 238\<rparr>"
  have found: "str_find (content ?st) startMarker (searchPos ?st) = Some 6"
    by code_simp
  have close: "str_find (content ?st) '')'' (6 + length startMarker) = Some 24"
    by code_simp
  have gt: "str_find (content ?st) ''>'' 24 = Some 25"
    by code_simp
  have lt: "str_find (content ?st) ''<'' (25 + 1) = Some 29"
    by code_simp
  have args: "''D, abc'' = substr (content ?st) (6 + length startMarker)
                 (24 - (6 + length startMarker))"
    by code_simp
  have comma: "str_rfind ''D, abc'' (CHR '','') = Some 1"
    by code_simp
  have bad: "stoi (drop (1 + 1) ''D, abc'') = Inl InvalidArgument"
    by code_simp
  have skipped: "?st' = ?st\<lparr>modified := True,
                    printed := printed ?st @ [DebugParse ''a.html'' ''D, abc'' (drop (1 + 1) ''D, abc''),
                                             WarnInvalidDay ''a.html''],
                    searchPos := 24\<rparr>"
    by simp
  have "scan_loop ''a.html'' ?d 0 ?st = scan_loop ''a.html'' ?d 0 ?st'"
    using unparsable_day_number_skipped [OF found close gt lt args comma bad skipped]
    by blast
  moreover have "scan_loop ''a.html'' ?d 0 ?st'
     = Some \<lparr>content = ''<p id=DateReplace(D, abc)>old</p><b DateReplace(D, 3)>29</b>'',
            searchPos = 56, modified = True,
            printed = [DebugParse ''a.html'' ''D, abc'' '' abc'', WarnInvalidDay ''a.html'',
                       DebugParse ''a.html'' ''D, 3'' '' 3'']\<rparr>"
    by code_simp
  ultimately show ?thesis
    by (simp add: scan_def)
qed

text \<open>
  C9. For a directive that is applied (closing parenthesis and target span found, day number
  read), the iteration returns, the rendered date exists, and the new buffer is the old one
  up to and including the first \<open>>\<close> after the closing parenthesis, then the rendered
  date, then the old buffer from the next \<open><\<close> on. The marker and the argument text lie
  before that \<open>>\<close>, so they stay verbatim, and nothing outside the span changes.
\<close>

theorem splice_rewrites_only_target_span:
  assumes close: "str_find (content st) '')'' (searchPos st + length startMarker) = Some c"
    and gt: "str_find (content st) ''>'' c = Some g"
    and lt: "str_find (content st) ''<'' (g + 1) = Some e"
    and args: "argsStr = substr (content st) (searchPos st + length startMarker)
                 (c - (searchPos st + length startMarker))"
    and day: "day_number argsStr startIndex = Some n"
  shows "\<exists>st' newDateStr.
      loop_body filePath startDate startIndex st = Some st'
    \<and> formatDate (addDays startDate (wrap_int (n - startIndex))) (trim (format_part argsStr))
        = Some newDateStr
    \<and> content st' = take (g + 1) (content st) @ newDateStr @ drop e (content st)
    \<and> take (g + 1) (content st') = take (g + 1) (content st)
    \<and> drop (g + 1 + length newDateStr) (content st') = drop e (content st)
    \<and> searchPos st + length startMarker \<le> c \<and> c \<le> g \<and> g + 1 \<le> e \<and> e < length (content st)
    \<and> searchPos st' = g + 1 + length newDateStr"
proof -
  obtain new where new:
    "formatDate (addDays startDate (wrap_int (n - startIndex))) (trim (format_part argsStr)) = Some new"
    using formatDate_addDays_total by blast
  let ?st' = "st\<lparr>modified := True, printed := printed st @ debug_lines filePath argsStr,
                 content := str_replace (content st) (g + 1) (e - (g + 1)) new,
                 searchPos := g + 1 + length new\<rparr>"
  have body: "loop_body filePath startDate startIndex st = Some ?st'"
    by (simp add: loop_body_parsed [OF close gt lt] args [symmetric] day apply_directive_def new)
  have b1: "searchPos st + length startMarker \<le> c"
    using str_find_bounds [OF close] by simp
  have b2: "c \<le> g \<and> g + 1 \<le> length (content st)"
    using str_find_bounds [OF gt] by simp
  have b3: "g + 1 \<le> e \<and> e + 1 \<le> length (content st)"
    using str_find_bounds [OF lt] by simp
  have c: "content ?st' = take (g + 1) (content st) @ new @ drop e (content st)"
    using b3 by (simp add: str_replace_def)
  have len: "length (take (g + 1) (content st)) = g + 1"
    using b2 by simp
  have t: "take (g + 1) (content ?st') = take (g + 1) (content st)"
    unfolding c using len by simp
  have d: "drop (g + 1 + length new) (content ?st') = drop e (content st)"
    unfolding c using len by simp
  show ?thesis
    using body new c t d b1 b2 b3
    by (intro exI [of _ ?st'] exI [of _ new]) simp
qed

text \<open>The witness of C9 is the directive of the example for 01/19/2024.\<close>

theorem splice_rewrites_only_target_span_witness:
  "loop_body ''a.html'' \<lparr>tm_mday = 15, tm_mon = 0, tm_year = 124, tm_wday = 1, tm_yday = 14\<rparr> 1
     \<lparr>content = ''<p id=DateReplace(MM DD, YYYY, 5)>old</p>'', searchPos = 6, modified = False,
        printed = []\<rparr>
   = Some \<lparr>content = ''<p id=DateReplace(MM DD, YYYY, 5)>January 19, 2024</p>'',
            searchPos = 50, modified = True,
            printed = [DebugParse ''a.html'' ''MM DD, YYYY, 5'' '' 5'']\<rparr>
   \<and> take 34 ''<p id=DateReplace(MM DD, YYYY, 5)>January 19, 2024</p>''
       = take 34 ''<p id=DateReplace(MM DD, YYYY, 5)>old</p>''
   \<and> drop 50 ''<p id=DateReplace(MM DD, YYYY, 5)>January 19, 2024</p>''
       = drop 37 ''<p id=DateReplace(MM DD, YYYY, 5)>old</p>''"
proof -
  let ?text = "''<p id=DateReplace(MM DD, YYYY, 5)>old</p>''"
  let ?st = "\<lparr>content = ?text, searchPos = 6, modified = False, printed = []\<rparr>"
  let ?d = "\<lparr>tm_mday = 15, tm_mon = 0, tm_year = 124, tm_wday = 1, tm_yday = 14\<rparr>"
  have close: "str_find (content ?st) '')'' (searchPos ?st + length startMarker) = Some 32"
    by code_simp
  have gt: "str_find (content ?st) ''>'' 32 = Some 33"
    by code_simp
  have lt: "str_find (content ?st) ''<'' (33 + 1) = Some 37"
    by code_simp
  have args: "''MM DD, YYYY, 5'' = substr (content ?st) (searchPos ?st + length startMarker)
                 (32 - (searchPos ?st + length startMarker))"
    by code_simp
  have day: "day_number ''MM DD, YYYY, 5'' 1 = Some 5"
    by code_simp
  have render: "formatDate (addDays ?d (wrap_int (5 - 1))) (trim (format_part ''MM DD, YYYY, 5''))
                  = Some ''January 19, 2024''"
    by code_simp
  from splice_rewrites_only_target_span [OF close gt lt args day, of "''a.html''" ?d]
  obtain st' where st': "loop_body ''a.html'' ?d 1 ?st = Some st'"
      "take (33 + 1) (content st') = take (33 + 1) (content ?st)"
      "drop (33 + 1 + length ''January 19, 2024'') (content st') = drop 37 (content ?st)"
    unfolding render by auto
  have "loop_body ''a.html'' ?d 1 ?st
     = Some \<lparr>content = ''<p id=DateReplace(MM DD, YYYY, 5)>January 19, 2024</p>'',
            searchPos = 50, modified = True,
            printed = [DebugParse ''a.html'' ''MM DD, YYYY, 5'' '' 5'']\<rparr>"
    by code_simp
  with st' show ?thesis
    by simp
qed

text \<open>
  C10. Claimed: whenever the day part begins, after white space and a sign, with a decimal
  digit, the parse succeeds with that leading integer, and the warning is reached only when
  no leading integer can be read. \<open>std::stoi\<close> also throws \<open>std::out_of_range\<close>, which
  the \<open>catch\<close> of \<open>std::exception\<close> takes as well: the day part \<open>99999999999\<close> begins
  with digits and is skipped with the warning.
\<close>

theorem huge_day_number_rejected:
  "stoi '' 99999999999'' = Inl OutOfRange
   \<and> day_number ''D, 99999999999'' 0 = None
   \<and> scan ''a.html'' \<lparr>tm_mday = 26, tm_mon = 7, tm_year = 124, tm_wday = 1, tm_yday = 238\<rparr> 0
        ''<p id=DateReplace(D, 99999999999)>old</p>''
      = Some \<lparr>content = ''<p id=DateReplace(D, 99999999999)>old</p>'', searchPos = 32,
               modified = True,
               printed = [DebugParse ''a.html'' ''D, 99999999999'' '' 99999999999'',
                          WarnInvalidDay ''a.html'']\<rparr>"
  by code_simp

text \<open>
  C10, amended: a day part made of white space, an optional sign, a non-empty run of digits
  and a rest that does not begin with a digit is read as the value \<open>v\<close> of the signed
  digits when \<open>v\<close> fits an \<open>int\<close>, whatever the rest is; when it does not fit, the parse
  fails with \<open>OutOfRange\<close> and the directive takes the path of the warning.
\<close>

theorem day_part_leading_integer:
  assumes ws: "list_all isspace ws"
    and sg: "sg = [] \<or> sg = ''+'' \<or> sg = ''-''"
    and ds: "ds \<noteq> []" "list_all isdigit ds"
    and rest: "takeWhile isdigit rest = []"
    and day_part: "dayPart = ws @ sg @ ds @ rest"
    and no_comma: "CHR '','' \<notin> set dayPart"
    and v: "v = (if sg = ''-'' then - digits_val ds else digits_val ds)"
  shows "stoi dayPart = (if INT_MIN \<le> v \<and> v \<le> INT_MAX then Inr v else Inl OutOfRange)
    \<and> day_number (formatPart @ CHR '','' # dayPart) startIndex
        = (if INT_MIN \<le> v \<and> v \<le> INT_MAX then Some v else None)"
proof -
  have s: "stoi dayPart = (if INT_MIN \<le> v \<and> v \<le> INT_MAX then Inr v else Inl OutOfRange)"
    unfolding day_part stoi_leading_integer [OF ws sg ds rest] v Let_def
    by (simp add: not_less)
  have "str_rfind (formatPart @ CHR '','' # dayPart) (CHR '','') = Some (length formatPart)"
    using no_comma by (rule str_rfind_append)
  then have "day_number (formatPart @ CHR '','' # dayPart) startIndex
      = (case stoi dayPart of Inl e \<Rightarrow> None | Inr dayOffset \<Rightarrow> Some dayOffset)"
    by (simp add: day_number_def)
  with s show ?thesis by simp
qed

text \<open>The day part \<open>5abc\<close> after a blank yields the day number 5.\<close>

theorem day_part_leading_integer_witness:
  "stoi '' 5abc'' = Inr 5 \<and> day_number ''D, 5abc'' 0 = Some 5"
proof -
  have ws: "list_all isspace '' ''" by (simp add: isspace_def)
  have sg: "[] = [] \<or> [] = ''+'' \<or> [] = ''-''" by simp
  have ds: "''5'' \<noteq> []" "list_all isdigit ''5''" by (simp_all add: isdigit_def)
  have rest: "takeWhile isdigit ''abc'' = []" by (simp add: isdigit_def)
  have day_part: "'' 5abc'' = '' '' @ [] @ ''5'' @ ''abc''" by simp
  have no_comma: "CHR '','' \<notin> set '' 5abc''" by simp
  have v: "(5::int) = (if [] = ''-'' then - digits_val ''5'' else digits_val ''5'')"
    by (simp add: digits_val_def digit_val_def)
  from day_part_leading_integer [OF ws sg ds rest day_part no_comma v, of "''D''" 0]
  show ?thesis by (simp add: INT_MIN_def INT_MAX_def)
qed

end
